theory Spec2Isabelle
  imports Main "HOL-Library.Sublist" "HOL-Library.Monad_Syntax"
begin

section \<open>Python strings\<close>

text \<open>
  A Python \<^verbatim>\<open>str\<close> is a sequence of Unicode code points; \<^verbatim>\<open>len\<close> counts code
  points. A string is modelled as the list of its code points. \<open>ustr\<close> reads an ASCII
  literal of the source.
\<close>

type_synonym ustring = "nat list"

definition ustr :: "string \<Rightarrow> ustring" where
  "ustr s = map of_char s"

text \<open>
  \<^verbatim>\<open>str.isspace\<close>, which is also what \<^verbatim>\<open>\s\<close> matches in a \<^verbatim>\<open>str\<close> pattern and what
  \<^verbatim>\<open>strip()\<close> and \<^verbatim>\<open>rstrip()\<close> remove: the code points CPython lists as whitespace.
\<close>

definition is_space :: "nat \<Rightarrow> bool" where
  "is_space c = ((0x09 \<le> c \<and> c \<le> 0x0D) \<or> (0x1C \<le> c \<and> c \<le> 0x20) \<or> c = 0x85 \<or> c = 0xA0
     \<or> c = 0x1680 \<or> (0x2000 \<le> c \<and> c \<le> 0x200A) \<or> c = 0x2028 \<or> c = 0x2029
     \<or> c = 0x202F \<or> c = 0x205F \<or> c = 0x3000)"

text \<open>The line boundaries of \<^verbatim>\<open>str.splitlines\<close> (\<^verbatim>\<open>\r\n\<close> counts as one boundary).\<close>

definition is_linebreak :: "nat \<Rightarrow> bool" where
  "is_linebreak c = ((0x0A \<le> c \<and> c \<le> 0x0D) \<or> (0x1C \<le> c \<and> c \<le> 0x1E) \<or> c = 0x85
     \<or> c = 0x2028 \<or> c = 0x2029)"

text \<open>
  The large tables of the Python runtime's Unicode database are parameters of the model:
  \<^verbatim>\<open>\d\<close> matches the decimal digits (\<^verbatim>\<open>str.isdecimal\<close>), \<^verbatim>\<open>\w\<close> the alphanumerics
  (\<^verbatim>\<open>str.isalnum\<close>) and the underscore, and \<^verbatim>\<open>str.lower\<close>, \<^verbatim>\<open>str.upper\<close> are the full
  case mappings (they may change the length of a string and depend on context).
\<close>

record py_unicode =
  is_decimal :: "nat \<Rightarrow> bool"
  is_alnum :: "nat \<Rightarrow> bool"
  str_lower :: "ustring \<Rightarrow> ustring"
  str_upper :: "ustring \<Rightarrow> ustring"

definition is_ascii_digit :: "nat \<Rightarrow> bool" where
  "is_ascii_digit c = (0x30 \<le> c \<and> c \<le> 0x39)"

definition is_ascii_upper :: "nat \<Rightarrow> bool" where
  "is_ascii_upper c = (0x41 \<le> c \<and> c \<le> 0x5A)"

definition is_ascii_lower :: "nat \<Rightarrow> bool" where
  "is_ascii_lower c = (0x61 \<le> c \<and> c \<le> 0x7A)"

definition is_ascii_letter :: "nat \<Rightarrow> bool" where
  "is_ascii_letter c = (is_ascii_upper c \<or> is_ascii_lower c)"

definition ascii_lower :: "nat \<Rightarrow> nat" where
  "ascii_lower c = (if is_ascii_upper c then c + 32 else c)"

definition ascii_upper :: "nat \<Rightarrow> nat" where
  "ascii_upper c = (if is_ascii_lower c then c - 32 else c)"

text \<open>
  What the proofs use of the runtime's tables: their values on ASCII, that whitespace is
  never alphanumeric, that a decimal digit is alphanumeric, and that the case mappings
  map a prefix of ASCII and whitespace characters character by character, whatever
  follows it.
\<close>

definition is_plain :: "nat \<Rightarrow> bool" where
  "is_plain c = (c < 128 \<or> is_space c)"

definition py_unicode_ok :: "py_unicode \<Rightarrow> bool" where
  "py_unicode_ok U =
     ((\<forall>c. c < 128 \<longrightarrow> is_decimal U c = is_ascii_digit c)
    \<and> (\<forall>c. c < 128 \<longrightarrow> is_alnum U c = (is_ascii_digit c \<or> is_ascii_letter c))
    \<and> (\<forall>c. is_space c \<longrightarrow> \<not> is_alnum U c)
    \<and> (\<forall>c. is_decimal U c \<longrightarrow> is_alnum U c)
    \<and> (\<forall>a b. list_all is_plain a \<longrightarrow> prefix (map ascii_lower a) (str_lower U (a @ b)))
    \<and> (\<forall>a b. list_all is_plain a \<longrightarrow> prefix (map ascii_upper a) (str_upper U (a @ b)))
    \<and> (\<forall>a. list_all is_plain a \<longrightarrow> str_lower U a = map ascii_lower a)
    \<and> (\<forall>a. list_all is_plain a \<longrightarrow> str_upper U a = map ascii_upper a))"

text \<open>
  The tables cut down to ASCII: every code point from 128 on counts as neither digit nor
  alphanumeric and has no case. They agree with the runtime on ASCII text, which is what
  the concrete evaluations below use.
\<close>

definition ascii_unicode :: py_unicode where
  "ascii_unicode = \<lparr> is_decimal = is_ascii_digit,
      is_alnum = (\<lambda>c. is_ascii_digit c \<or> is_ascii_letter c),
      str_lower = map ascii_lower, str_upper = map ascii_upper \<rparr>"

subsection \<open>String methods\<close>

definition py_strip :: "ustring \<Rightarrow> ustring" where
  "py_strip s = rev (dropWhile is_space (rev (dropWhile is_space s)))"

definition py_rstrip :: "ustring \<Rightarrow> ustring" where
  "py_rstrip s = rev (dropWhile is_space (rev s))"

text \<open>\<^verbatim>\<open>s.strip(chars)\<close>: the characters of \<open>chars\<close> are removed from both ends.\<close>

definition py_strip_chars :: "ustring \<Rightarrow> ustring \<Rightarrow> ustring" where
  "py_strip_chars chars s =
     rev (dropWhile (\<lambda>c. c \<in> set chars) (rev (dropWhile (\<lambda>c. c \<in> set chars) s)))"

text \<open>\<^verbatim>\<open>sep.join(xs)\<close>.\<close>

fun py_join :: "ustring \<Rightarrow> ustring list \<Rightarrow> ustring" where
  "py_join sep [] = []"
| "py_join sep [x] = x"
| "py_join sep (x # y # ys) = x @ sep @ py_join sep (y # ys)"

text \<open>\<^verbatim>\<open>s.split(c)\<close> for a separator of one character: never an empty list.\<close>

fun py_split :: "nat \<Rightarrow> ustring \<Rightarrow> ustring list" where
  "py_split c [] = [[]]"
| "py_split c (x # xs) =
     (if x = c then [] # py_split c xs
      else (case py_split c xs of l # ls \<Rightarrow> (x # l) # ls | [] \<Rightarrow> [[x]]))"

text \<open>
  \<^verbatim>\<open>s.splitlines()\<close>: \<open>cur\<close> is the line read so far. The text after the last boundary
  is a line only when it is not empty.
\<close>

fun splitlines_from :: "ustring \<Rightarrow> ustring \<Rightarrow> ustring list" where
  "splitlines_from cur [] = (if cur = [] then [] else [cur])"
| "splitlines_from cur [c] = (if is_linebreak c then [cur] else [cur @ [c]])"
| "splitlines_from cur (c # d # s) =
     (if c = 0x0D \<and> d = 0x0A then cur # splitlines_from [] s
      else if is_linebreak c then cur # splitlines_from [] (d # s)
      else splitlines_from (cur @ [c]) (d # s))"

definition py_splitlines :: "ustring \<Rightarrow> ustring list" where
  "py_splitlines s = splitlines_from [] s"

text \<open>
  \<^verbatim>\<open>s.replace(old, new)\<close> and \<^verbatim>\<open>s.count(old)\<close> for a non-empty \<open>old\<close>: the occurrences
  are found from the left and do not overlap.
\<close>

function py_replace :: "ustring \<Rightarrow> ustring \<Rightarrow> ustring \<Rightarrow> ustring" where
  "py_replace old new s =
     (if s = [] \<or> old = [] then s
      else if prefix old s then new @ py_replace old new (drop (length old) s)
      else hd s # py_replace old new (tl s))"
  by pat_completeness auto
termination
  by (relation "measure (\<lambda>(old, new, s). length s)") auto

function py_count :: "ustring \<Rightarrow> ustring \<Rightarrow> nat" where
  "py_count old s =
     (if s = [] \<or> old = [] then 0
      else if prefix old s then Suc (py_count old (drop (length old) s))
      else py_count old (tl s))"
  by pat_completeness auto
termination
  by (relation "measure (\<lambda>(old, s). length s)") auto

text \<open>\<^verbatim>\<open>a in b\<close> on strings is \<^const>\<open>sublist\<close>; \<^verbatim>\<open>b.startswith(a)\<close> is \<^const>\<open>prefix\<close>.\<close>

text \<open>\<^verbatim>\<open>str(n)\<close> for a non-negative integer, as the f-strings of the source format it.\<close>

fun str_nat :: "nat \<Rightarrow> ustring" where
  "str_nat n = (if n < 10 then [0x30 + n] else str_nat (n div 10) @ [0x30 + n mod 10])"

declare py_replace.simps [simp del] py_count.simps [simp del] str_nat.simps [simp del]

section \<open>Regular expressions of the source\<close>

text \<open>
  Each pattern of the source is written out as a matcher on the text at the current
  position: the result is the text after the match, or \<open>None\<close>. The pieces below are
  the literal, the single character of a class, and the greedy repetitions of a class.
  A greedy repetition takes the longest run; in every pattern of the source the
  piece after a repetition starts with a character outside the repeated class (or the
  pattern ends there), so giving characters back never makes a failed match succeed.
  Where the source's pattern has a real choice (an optional piece, an alternation, the
  counted group of the spaced-capitals pattern), the matcher tries the choices in the
  order of the \<^verbatim>\<open>re\<close> module and falls back.
\<close>

definition re_lit :: "ustring \<Rightarrow> ustring \<Rightarrow> ustring option" where
  "re_lit p s = (if prefix p s then Some (drop (length p) s) else None)"

definition re_one :: "(nat \<Rightarrow> bool) \<Rightarrow> ustring \<Rightarrow> ustring option" where
  "re_one P s = (case s of [] \<Rightarrow> None | c # r \<Rightarrow> if P c then Some r else None)"

definition re_many :: "(nat \<Rightarrow> bool) \<Rightarrow> ustring \<Rightarrow> ustring option" where
  "re_many P s = Some (dropWhile P s)"

definition re_many1 :: "(nat \<Rightarrow> bool) \<Rightarrow> ustring \<Rightarrow> ustring option" where
  "re_many1 P s = (case s of [] \<Rightarrow> None | c # r \<Rightarrow> if P c then Some (dropWhile P r) else None)"

definition re_or :: "ustring option \<Rightarrow> ustring option \<Rightarrow> ustring option" where
  "re_or a b = (case a of Some r \<Rightarrow> Some r | None \<Rightarrow> b)"

text \<open>The character before and after a position, for \<^verbatim>\<open>\b\<close>.\<close>

definition head_char :: "ustring \<Rightarrow> nat option" where
  "head_char s = (case s of [] \<Rightarrow> None | c # _ \<Rightarrow> Some c)"

definition is_word :: "py_unicode \<Rightarrow> nat option \<Rightarrow> bool" where
  "is_word U oc = (case oc of None \<Rightarrow> False | Some c \<Rightarrow> is_alnum U c \<or> c = 0x5F)"

definition word_boundary :: "py_unicode \<Rightarrow> nat option \<Rightarrow> nat option \<Rightarrow> bool" where
  "word_boundary U prev nxt = (is_word U prev \<noteq> is_word U nxt)"

subsection \<open>CHINESE_CHAR_PATTERN\<close>

definition is_chinese :: "nat \<Rightarrow> bool" where
  "is_chinese c = ((0x3400 \<le> c \<and> c \<le> 0x4DBF) \<or> (0x4E00 \<le> c \<and> c \<le> 0x9FFF)
     \<or> (0xF900 \<le> c \<and> c \<le> 0xFAFF) \<or> (0x20000 \<le> c \<and> c \<le> 0x2CEAF)
     \<or> (0x2F800 \<le> c \<and> c \<le> 0x2FA1F))"

subsection \<open>URL_PATTERN\<close>

definition not_space :: "nat \<Rightarrow> bool" where
  "not_space c = (\<not> is_space c)"

definition is_host_first :: "nat \<Rightarrow> bool" where
  "is_host_first c = (is_ascii_letter c \<or> is_ascii_digit c)"

definition is_host_char :: "nat \<Rightarrow> bool" where
  "is_host_char c = (is_ascii_letter c \<or> is_ascii_digit c \<or> c = 0x2D)"

text \<open>\<^verbatim>\<open>https?://[^\s]+\<close>\<close>

definition url_http :: "ustring \<Rightarrow> ustring option" where
  "url_http s = re_lit (ustr ''http'') s \<bind> (\<lambda>r.
     re_or (re_lit (ustr ''s'') r \<bind> re_lit (ustr ''://'') \<bind> re_many1 not_space)
           (re_lit (ustr ''://'') r \<bind> re_many1 not_space))"

text \<open>\<^verbatim>\<open>www\.[a-zA-Z0-9][a-zA-Z0-9-]*\.[^\s]+\<close>\<close>

definition url_www :: "ustring \<Rightarrow> ustring option" where
  "url_www s = re_lit (ustr ''www.'') s \<bind> re_one is_host_first \<bind> re_many is_host_char
     \<bind> re_lit (ustr ''.'') \<bind> re_many1 not_space"

text \<open>\<^verbatim>\<open>(?:doi\.org/|doi:\s*)[^\s]+\<close>\<close>

definition url_doi :: "ustring \<Rightarrow> ustring option" where
  "url_doi s = re_or (re_lit (ustr ''doi.org/'') s) (re_lit (ustr ''doi:'') s \<bind> re_many is_space)
     \<bind> re_many1 not_space"

definition url_match :: "ustring \<Rightarrow> ustring option" where
  "url_match s = re_or (url_http s) (re_or (url_www s) (url_doi s))"

text \<open>\<^verbatim>\<open>URL_PATTERN.search(s)\<close> as a truth value: a match at some position.\<close>

fun url_search :: "ustring \<Rightarrow> bool" where
  "url_search [] = False"
| "url_search (c # s) = (url_match (c # s) \<noteq> None \<or> url_search s)"

lemma dropWhile_shorter: "length (dropWhile P s) \<le> length s"
  by (induction s) auto

lemma re_lit_shorter: "re_lit p s = Some r \<Longrightarrow> length r \<le> length s"
  by (auto simp: re_lit_def split: if_splits)

lemma re_many_shorter: "re_many P s = Some r \<Longrightarrow> length r \<le> length s"
  by (auto simp: re_many_def dropWhile_shorter)

lemma re_one_shorter: "re_one P s = Some r \<Longrightarrow> length r < length s"
  by (auto simp: re_one_def split: list.splits if_splits)

lemma re_many1_shorter: "re_many1 P s = Some r \<Longrightarrow> length r < length s"
  by (auto simp: re_many1_def dropWhile_shorter le_imp_less_Suc split: list.splits if_splits)

lemma url_match_shorter: "url_match s = Some r \<Longrightarrow> length r < length s"
  unfolding url_match_def url_http_def url_www_def url_doi_def re_or_def
  by (auto split: option.splits Option.bind_splits
      dest!: re_lit_shorter re_many_shorter re_one_shorter re_many1_shorter)

text \<open>
  \<^verbatim>\<open>URL_PATTERN.sub("", s)\<close>: the matches are found from the left, each is removed, and
  the search goes on after it. No alternative of the pattern matches the empty string.
\<close>

function url_sub :: "ustring \<Rightarrow> ustring" where
  "url_sub s =
     (if s = [] then []
      else (case url_match s of
              Some r \<Rightarrow> url_sub r
            | None \<Rightarrow> hd s # url_sub (tl s)))"
  by pat_completeness auto
termination
  by (relation "measure length") (auto dest: url_match_shorter)

declare url_sub.simps [simp del]

subsection \<open>SPACED_CAPS_PATTERN\<close>

text \<open>
  \<^verbatim>\<open>\b(?:[A-Z]\s+){2,}[A-Z]\b\<close>. \<open>caps_unit\<close> is one round of the group,
  \<^verbatim>\<open>[A-Z]\s+\<close>. \<open>caps_tail U k s\<close> continues after \<open>k\<close> rounds: the counted group is
  greedy, so one more round is tried first, and only when nothing matches after that round
  does the pattern close here, with \<^verbatim>\<open>[A-Z]\b\<close>, which needs two rounds at least.
\<close>

definition caps_unit :: "ustring \<Rightarrow> ustring option" where
  "caps_unit s = re_one is_ascii_upper s \<bind> re_many1 is_space"

definition caps_final :: "py_unicode \<Rightarrow> nat \<Rightarrow> ustring \<Rightarrow> ustring option" where
  "caps_final U k s =
     (if 2 \<le> k then
        (case s of [] \<Rightarrow> None
         | c # r \<Rightarrow> if is_ascii_upper c \<and> word_boundary U (Some c) (head_char r) then Some r else None)
      else None)"

lemma caps_unit_shorter: "caps_unit s = Some r \<Longrightarrow> length r < length s"
  unfolding caps_unit_def
  by (auto split: Option.bind_splits dest!: re_one_shorter re_many1_shorter)

function caps_tail :: "py_unicode \<Rightarrow> nat \<Rightarrow> ustring \<Rightarrow> ustring option" where
  "caps_tail U k s =
     (case caps_unit s of
        Some s' \<Rightarrow> re_or (caps_tail U (Suc k) s') (caps_final U k s)
      | None \<Rightarrow> caps_final U k s)"
  by pat_completeness auto
termination
  by (relation "measure (\<lambda>(U, k, s). length s)") (auto dest: caps_unit_shorter)

declare caps_tail.simps [simp del]

text \<open>The match at a position; \<open>prev\<close> is the character before it, for the leading \<^verbatim>\<open>\b\<close>.\<close>

definition caps_match :: "py_unicode \<Rightarrow> nat option \<Rightarrow> ustring \<Rightarrow> ustring option" where
  "caps_match U prev s =
     (if word_boundary U prev (head_char s) then caps_tail U 0 s else None)"

lemma caps_final_shorter: "caps_final U k s = Some r \<Longrightarrow> length r < length s"
  by (auto simp: caps_final_def split: if_splits list.splits)

lemma caps_tail_shorter: "caps_tail U k s = Some r \<Longrightarrow> length r < length s"
proof (induction U k s arbitrary: r rule: caps_tail.induct)
  case (1 U k s)
  show ?case
  proof (cases "caps_unit s")
    case None
    with "1.prems" show ?thesis
      by (simp add: caps_tail.simps [of U k s] caps_final_shorter)
  next
    case (Some s')
    show ?thesis
    proof (cases "caps_tail U (Suc k) s'")
      case None
      with Some "1.prems" show ?thesis
        by (simp add: caps_tail.simps [of U k s] re_or_def caps_final_shorter)
    next
      case (Some r')
      with \<open>caps_unit s = Some s'\<close> "1.prems" have "r' = r"
        by (simp add: caps_tail.simps [of U k s] re_or_def)
      with "1.IH" [OF \<open>caps_unit s = Some s'\<close>] Some caps_unit_shorter [OF \<open>caps_unit s = Some s'\<close>]
      show ?thesis by fastforce
    qed
  qed
qed

lemma caps_match_shorter: "caps_match U prev s = Some r \<Longrightarrow> length r < length s"
  by (auto simp: caps_match_def caps_tail_shorter split: if_splits)

text \<open>
  \<^verbatim>\<open>SPACED_CAPS_PATTERN.sub(lambda match: match.group(0).replace(" ", ""), s)\<close>: every
  match, found from the left, is replaced by its text without the characters U+0020.
\<close>

function caps_sub :: "py_unicode \<Rightarrow> nat option \<Rightarrow> ustring \<Rightarrow> ustring" where
  "caps_sub U prev s =
     (if s = [] then []
      else (case caps_match U prev s of
              Some r \<Rightarrow>
                (let m = take (length s - length r) s
                 in filter (\<lambda>c. c \<noteq> 0x20) m @ caps_sub U (Some (last m)) r)
            | None \<Rightarrow> hd s # caps_sub U (Some (hd s)) (tl s)))"
  by pat_completeness auto
termination
  by (relation "measure (\<lambda>(U, prev, s). length s)") (auto dest: caps_match_shorter)

declare caps_sub.simps [simp del]

subsection \<open>The patterns of should_drop_line and remove_numeric_heading_prefix\<close>

text \<open>\<^verbatim>\<open>^[...]+\s+\<close>: the class holds the hyphen and six bullet glyphs (U+2022, written twice
  in the source, U+25AA, U+25E6, U+2023, U+2666 and U+F0D8).\<close>

definition is_bullet :: "nat \<Rightarrow> bool" where
  "is_bullet c = (c = 0x2D \<or> c = 0x2022 \<or> c = 0x25AA \<or> c = 0x25E6 \<or> c = 0x2023 \<or> c = 0x2666
     \<or> c = 0xF0D8)"

definition bullet_match :: "ustring \<Rightarrow> bool" where
  "bullet_match s = (re_many1 is_bullet s \<bind> re_many1 is_space \<noteq> None)"

text \<open>\<^verbatim>\<open>^\(?[a-z]\)\s+\<close>\<close>

definition letter_label_match :: "ustring \<Rightarrow> bool" where
  "letter_label_match s =
     (re_or (re_lit (ustr ''('') s \<bind> re_one is_ascii_lower \<bind> re_lit (ustr '')'') \<bind> re_many1 is_space)
            (re_one is_ascii_lower s \<bind> re_lit (ustr '')'') \<bind> re_many1 is_space) \<noteq> None)"

definition is_dot_or_paren :: "nat \<Rightarrow> bool" where
  "is_dot_or_paren c = (c = 0x2E \<or> c = 0x29)"

text \<open>\<^verbatim>\<open>^\d+[\.\)]\s+[a-z]\<close>\<close>

definition numbered_item_match :: "py_unicode \<Rightarrow> ustring \<Rightarrow> bool" where
  "numbered_item_match U s =
     (re_many1 (is_decimal U) s \<bind> re_one is_dot_or_paren \<bind> re_many1 is_space
        \<bind> re_one is_ascii_lower \<noteq> None)"

text \<open>
  \<^verbatim>\<open>^\d+[\.\)]\s*$\<close>: after the whitespace the text ends (\<^verbatim>\<open>$\<close> also matches
  before a last newline, which the whitespace run has taken already).
\<close>

definition number_only_match :: "py_unicode \<Rightarrow> ustring \<Rightarrow> bool" where
  "number_only_match U s =
     (re_many1 (is_decimal U) s \<bind> re_one is_dot_or_paren \<bind> re_many is_space = Some [])"

text \<open>
  \<^verbatim>\<open>^\s*\d+\.\s+([A-Za-z].*)$\<close>: the result is group 1. The dot of \<^verbatim>\<open>.*\<close> matches
  every character but the newline, and \<^verbatim>\<open>$\<close> holds at the end of the text or before a
  newline that ends it.
\<close>

definition not_newline :: "nat \<Rightarrow> bool" where
  "not_newline c = (c \<noteq> 0x0A)"

definition heading_match :: "py_unicode \<Rightarrow> ustring \<Rightarrow> ustring option" where
  "heading_match U s =
     re_many is_space s \<bind> re_many1 (is_decimal U) \<bind> re_lit (ustr ''.'') \<bind> re_many1 is_space
       \<bind> (\<lambda>g. re_one is_ascii_letter g \<bind> re_many not_newline
       \<bind> (\<lambda>e. if e = [] \<or> e = [0x0A] then Some (take (length g - length e) g) else None))"

subsection \<open>MATH_COMBINED\<close>

definition is_math_symbol :: "nat \<Rightarrow> bool" where
  "is_math_symbol c = (c \<in> set [0x3D, 0x3C, 0x3E, 0x2248, 0x2264, 0x2265, 0xB1, 0xD7, 0xF7, 0x2211,
     0x220F, 0x222B, 0x221A, 0x221E, 0xB0, 0x3C0, 0x3BC, 0x3C3, 0x394, 0x3BB, 0x3B1, 0x3B2, 0x3B3,
     0x3B8, 0x3C6, 0x3C8, 0x3C9, 0x2F, 0x5C, 0x5E, 0x7B, 0x7D, 0x5F])"

text \<open>\<^verbatim>\<open>\b\d+/\d+\b\<close>; \<open>prev\<close> is the character before the position.\<close>

definition fraction_match :: "py_unicode \<Rightarrow> nat option \<Rightarrow> ustring \<Rightarrow> bool" where
  "fraction_match U prev s =
     (word_boundary U prev (head_char s) \<and>
      (case re_many1 (is_decimal U) s \<bind> re_lit (ustr ''/'') of
         None \<Rightarrow> False
       | Some d \<Rightarrow>
           (case re_many1 (is_decimal U) d of
              None \<Rightarrow> False
            | Some r \<Rightarrow> word_boundary U (Some (last (take (length d - length r) d))) (head_char r))))"

definition is_letter_or_digit :: "nat \<Rightarrow> bool" where
  "is_letter_or_digit c = (is_ascii_letter c \<or> is_ascii_digit c)"

text \<open>The eight alternatives of MATH_COMBINED, in their order, at one position.\<close>

definition math_match :: "py_unicode \<Rightarrow> nat option \<Rightarrow> ustring \<Rightarrow> bool" where
  "math_match U prev s =
     (re_lit (0x5C # ustr ''frac'') s \<noteq> None
    \<or> re_lit (0x5C # ustr ''sqrt'') s \<noteq> None
    \<or> re_lit (0x5C # ustr ''sum'') s \<noteq> None
    \<or> re_lit (0x5C # ustr ''int'') s \<noteq> None
    \<or> fraction_match U prev s
    \<or> (re_one is_ascii_letter s \<bind> re_lit (ustr ''^'') \<bind> re_one (is_decimal U)) \<noteq> None
    \<or> (re_one is_ascii_letter s \<bind> re_lit (ustr ''_'') \<bind> re_one is_letter_or_digit) \<noteq> None
    \<or> re_one is_math_symbol s \<noteq> None)"

text \<open>\<^verbatim>\<open>re.search(MATH_COMBINED, s) is not None\<close>: a match at some position.\<close>

fun math_search :: "py_unicode \<Rightarrow> nat option \<Rightarrow> ustring \<Rightarrow> bool" where
  "math_search U prev [] = False"
| "math_search U prev (c # s) = (math_match U prev (c # s) \<or> math_search U (Some c) s)"

subsection \<open>The pattern of the Celsius repair\<close>

text \<open>The replacement character U+FFFD one or more times and then \<^verbatim>\<open>C\<close>.\<close>

definition is_replacement_char :: "nat \<Rightarrow> bool" where
  "is_replacement_char c = (c = 0xFFFD)"

definition celsius_match :: "ustring \<Rightarrow> ustring option" where
  "celsius_match s = re_many1 is_replacement_char s \<bind> re_lit (ustr ''C'')"

lemma celsius_match_shorter: "celsius_match s = Some r \<Longrightarrow> length r < length s"
  unfolding celsius_match_def
  by (auto split: Option.bind_splits dest!: re_many1_shorter re_lit_shorter)

text \<open>\<^verbatim>\<open>re.sub(pattern, degree_C, s)\<close>, where the replacement is U+00B0 and \<^verbatim>\<open>C\<close>.\<close>

function celsius_sub :: "ustring \<Rightarrow> ustring" where
  "celsius_sub s =
     (if s = [] then []
      else (case celsius_match s of
              Some r \<Rightarrow> [0xB0, 0x43] @ celsius_sub r
            | None \<Rightarrow> hd s # celsius_sub (tl s)))"
  by pat_completeness auto
termination
  by (relation "measure length") (auto dest: celsius_match_shorter)

declare celsius_sub.simps [simp del]

section \<open>The functions of clean.py\<close>

text \<open>Each function returns an empty text unchanged (\<^verbatim>\<open>if not text: return text\<close>).\<close>

definition remove_chinese_characters :: "ustring \<Rightarrow> ustring" where
  "remove_chinese_characters text =
     (if text = [] then text else filter (\<lambda>c. \<not> is_chinese c) text)"

definition remove_urls :: "ustring \<Rightarrow> ustring" where
  "remove_urls text = (if text = [] then text else url_sub text)"

definition collapse_spaced_capital_sequences :: "py_unicode \<Rightarrow> ustring \<Rightarrow> ustring" where
  "collapse_spaced_capital_sequences U text = (if text = [] then text else caps_sub U None text)"

definition remove_numeric_heading_prefix :: "py_unicode \<Rightarrow> ustring \<Rightarrow> ustring" where
  "remove_numeric_heading_prefix U line =
     (if line = [] then line
      else (case heading_match U line of Some g \<Rightarrow> g | None \<Rightarrow> line))"

definition caption_prefixes :: "ustring list" where
  "caption_prefixes = map ustr [''figure '', ''figure:'', ''fig '', ''fig.'', ''fig:'',
     ''table '', ''table.'', ''table:'']"

definition should_drop_line :: "py_unicode \<Rightarrow> ustring \<Rightarrow> bool" where
  "should_drop_line U line =
     (if line = [] then False
      else let stripped = py_strip line in
        if stripped = [] then False
        else let lower = str_lower U stripped in
          if list_ex (\<lambda>p. prefix p lower) caption_prefixes then True
          else if bullet_match stripped then True
          else if letter_label_match (str_lower U stripped) then True
          else if numbered_item_match U stripped then True
          else if number_only_match U stripped then True
          else False)"

subsection \<open>clean_article_info_section\<close>

record info_state =
  cleaned_lines :: "ustring list"
  title_lines :: "ustring list"
  found_abstract :: bool
  skip_until_abstract :: bool
  collecting_title :: bool

definition metadata_headings :: "ustring list" where
  "metadata_headings = map ustr [''ARTICLE INFO'', ''ARTICLE INFORMATION'', ''ARTICLE HISTORY'',
     ''KEYWORDS'']"

text \<open>The sixteenth cue of the source is the copyright sign, U+00A9.\<close>

definition metadata_cues :: "ustring list" where
  "metadata_cues = map ustr [''received:'', ''accepted:'', ''published:'', ''doi:'', ''doi.org'',
       ''keywords:'', ''copyright'']
     @ [[0xA9]]
     @ map ustr [''elsevier'', ''springer'', ''all rights reserved'', ''article history'',
       ''available online'', ''e-mail:'', ''email:'', ''correspondence:'', ''@'']"

text \<open>One round of the loop over the lines; each \<^verbatim>\<open>continue\<close> ends a branch.\<close>

definition info_step :: "py_unicode \<Rightarrow> info_state \<Rightarrow> ustring \<Rightarrow> info_state" where
  "info_step U st line =
     (let stripped = py_strip line; upper = str_upper U stripped in
      if sublist (ustr ''ABSTRACT'') upper \<and> \<not> found_abstract st then
        st\<lparr> found_abstract := True, skip_until_abstract := False, collecting_title := False,
            cleaned_lines := cleaned_lines st
              @ (if title_lines st \<noteq> [] then title_lines st @ [[]] else []) @ [line] \<rparr>
      else if \<not> found_abstract st \<and> list_ex (\<lambda>keyword. sublist keyword upper) metadata_headings then
        st\<lparr> skip_until_abstract := True, collecting_title := False \<rparr>
      else if \<not> found_abstract st \<and> skip_until_abstract st then st
      else if \<not> found_abstract st \<and> \<not> skip_until_abstract st \<and> collecting_title st then
        (if stripped \<noteq> []
            \<and> \<not> list_ex (\<lambda>keyword. sublist keyword (str_lower U stripped)) metadata_cues
            \<and> \<not> url_search stripped
         then st\<lparr> title_lines := title_lines st @ [line] \<rparr>
         else st)
      else if found_abstract st then
        st\<lparr> cleaned_lines := cleaned_lines st @ [remove_urls line] \<rparr>
      else st)"

definition info_init :: info_state where
  "info_init = \<lparr> cleaned_lines = [], title_lines = [], found_abstract = False,
     skip_until_abstract = False, collecting_title = True \<rparr>"

definition clean_article_info_section :: "py_unicode \<Rightarrow> ustring \<Rightarrow> ustring" where
  "clean_article_info_section U text =
     (if text = [] then text
      else let lines = py_split 0x0A text;
               st = foldl (info_step U) info_init lines in
        if \<not> found_abstract st then
          py_join [0x0A]
            (filter (\<lambda>cleaned_line. py_strip cleaned_line \<noteq> []) (map remove_urls lines))
        else py_join [0x0A] (cleaned_lines st))"

subsection \<open>is_math_like\<close>

definition is_math_like :: "py_unicode \<Rightarrow> ustring \<Rightarrow> bool" where
  "is_math_like U snippet = (if snippet = [] then False else math_search U None snippet)"

section \<open>The page loop\<close>

text \<open>
  The PDF engine, the rasterizer and the OCR engine are outside the program: a page is
  given by what they return for it, the extracted text, the PNG bytes of the rendered
  page and the text the OCR engine reads from those bytes.
\<close>

record page =
  raw_text :: ustring
  img_bytes :: "nat list"
  ocr_text :: ustring

record formula_record =
  rec_id :: nat
  rec_page :: nat
  rec_imgfile :: ustring
  rec_ocr :: ustring
  rec_lines :: "(nat \<times> ustring) list"

text \<open>
  The run's parameters: the names computed from the command line, and the two values the
  platform supplies, \<^verbatim>\<open>os.path.join\<close> and \<^verbatim>\<open>os.linesep\<close>.
\<close>

record config =
  BASE :: ustring
  OUT_TXT :: ustring
  IMG_DIR :: ustring
  os_path_join :: "ustring \<Rightarrow> ustring \<Rightarrow> ustring"
  os_linesep :: ustring

text \<open>
  The state of the run: the three module variables, and the files written so far, each
  with its name and the bytes of the write, in the order of the writes.
\<close>

record run_state =
  formula_counter :: nat
  formula_records :: "formula_record list"
  collected_segments :: "ustring list"
  files :: "(ustring \<times> nat list) list"

definition mojibake_C :: ustring where
  "mojibake_C = [0xFFFD, 0xFFFD, 0x43]"

definition degree_C :: ustring where
  "degree_C = [0xB0, 0x43]"

text \<open>The Celsius repair at the head of the loop body: the literal, then the pattern.\<close>

definition fix_celsius :: "ustring \<Rightarrow> ustring" where
  "fix_celsius page_text =
     (let count_direct = py_count mojibake_C page_text;
          page_text = (if count_direct > 0 then py_replace mojibake_C degree_C page_text
                       else page_text)
      in celsius_sub page_text)"

text \<open>The page text before the loop over its lines.\<close>

definition normalize_page_text :: "py_unicode \<Rightarrow> ustring \<Rightarrow> ustring" where
  "normalize_page_text U raw =
     py_replace [0x0D, 0x0A] [0x0A]
       (collapse_spaced_capital_sequences U (remove_chinese_characters (fix_celsius raw)))"

text \<open>One round of the loop over the lines: \<open>None\<close> when the line is not kept.\<close>

definition clean_line :: "py_unicode \<Rightarrow> ustring \<Rightarrow> ustring option" where
  "clean_line U raw_line =
     (let line = py_rstrip raw_line in
      if should_drop_line U line then None
      else let line = remove_numeric_heading_prefix U line;
               line = collapse_spaced_capital_sequences U line;
               line = (if list_ex is_chinese line then remove_chinese_characters line else line)
        in if py_strip line \<noteq> [] then Some line else None)"

text \<open>The value of \<^verbatim>\<open>page_text\<close> after the loop over the lines.\<close>

definition cleaned_page_text :: "py_unicode \<Rightarrow> ustring \<Rightarrow> ustring" where
  "cleaned_page_text U raw =
     py_strip_chars [0x0A]
       (py_join [0x0A] (List.map_filter (clean_line U) (py_splitlines (normalize_page_text U raw))))"

definition ocr_trim :: "ustring \<Rightarrow> ustring" where
  "ocr_trim ocr = remove_chinese_characters (py_strip ocr)"

definition ocr_has_math :: "py_unicode \<Rightarrow> ustring \<Rightarrow> bool" where
  "ocr_has_math U trimmed = is_math_like U trimmed"

definition ocr_differs :: "ustring \<Rightarrow> ustring \<Rightarrow> bool" where
  "ocr_differs trimmed page_text = (length trimmed > 50 \<and> \<not> sublist trimmed page_text)"

definition complex_formula_lines :: "py_unicode \<Rightarrow> ustring \<Rightarrow> (nat \<times> ustring) list" where
  "complex_formula_lines U page_text =
     map (\<lambda>(i, line). (i + 1, line))
       (filter (\<lambda>(i, line). is_math_like U line \<and> length (py_strip line) > 5)
          (enumerate 0 (py_splitlines page_text)))"

definition page_flagged :: "py_unicode \<Rightarrow> page \<Rightarrow> bool" where
  "page_flagged U pg =
     (let page_text = cleaned_page_text U (raw_text pg); trimmed = ocr_trim (ocr_text pg) in
      ocr_has_math U trimmed \<or> ocr_differs trimmed page_text
        \<or> complex_formula_lines U page_text \<noteq> [])"

definition formula_marker :: ustring where
  "formula_marker = ustr ''<formula>''"

text \<open>The body of the loop for the page of index \<open>pno\<close>.\<close>

definition process_page :: "config \<Rightarrow> py_unicode \<Rightarrow> run_state \<Rightarrow> nat \<Rightarrow> page \<Rightarrow> run_state" where
  "process_page cfg U st pno pg =
     (let page_text = cleaned_page_text U (raw_text pg);
          st = (if page_text \<noteq> [] then
                  st\<lparr> collected_segments := collected_segments st @ [page_text] \<rparr>
                else st);
          page_imgname = os_path_join cfg (IMG_DIR cfg)
            (ustr ''page_'' @ str_nat (pno + 1) @ ustr ''.png'');
          st = st\<lparr> files := files st @ [(page_imgname, img_bytes pg)] \<rparr>;
          trimmed = ocr_trim (ocr_text pg);
          lines = complex_formula_lines U page_text
      in if ocr_has_math U trimmed \<or> ocr_differs trimmed page_text \<or> lines \<noteq> [] then
           (let fid = formula_counter st + 1;
                imgfile = os_path_join cfg (IMG_DIR cfg)
                  (ustr ''formula_'' @ BASE cfg @ ustr ''_p'' @ str_nat (pno + 1) @ ustr ''_''
                     @ str_nat fid @ ustr ''.png'')
            in st\<lparr> formula_counter := fid,
                   files := files st @ [(imgfile, img_bytes pg)],
                   collected_segments := collected_segments st @ [formula_marker],
                   formula_records := formula_records st
                     @ [\<lparr> rec_id = fid, rec_page = pno + 1, rec_imgfile = imgfile,
                          rec_ocr = trimmed, rec_lines = lines \<rparr>] \<rparr>)
         else st)"

text \<open>\<^verbatim>\<open>for pno in range(total_pages)\<close>, from the page of index \<open>pno\<close> on.\<close>

fun process_pages :: "config \<Rightarrow> py_unicode \<Rightarrow> run_state \<Rightarrow> nat \<Rightarrow> page list \<Rightarrow> run_state" where
  "process_pages cfg U st pno [] = st"
| "process_pages cfg U st pno (pg # pgs) =
     process_pages cfg U (process_page cfg U st pno pg) (Suc pno) pgs"

definition initial_state :: run_state where
  "initial_state = \<lparr> formula_counter = 0, formula_records = [], collected_segments = [],
     files = [] \<rparr>"

section \<open>Writing the output file\<close>

text \<open>
  The file is opened in text mode with the encoding UTF-8 and the default newline
  handling: every \<^verbatim>\<open>\n\<close> written becomes the platform's line separator, and the text
  is then encoded. A code point with no UTF-8 encoding (a surrogate) raises
  \<^verbatim>\<open>UnicodeEncodeError\<close>.
\<close>

datatype error = UnicodeEncodeError

definition utf8_char :: "nat \<Rightarrow> nat list option" where
  "utf8_char c =
     (if c < 0x80 then Some [c]
      else if c < 0x800 then Some [0xC0 + c div 64, 0x80 + c mod 64]
      else if c < 0x10000 then
        (if 0xD800 \<le> c \<and> c \<le> 0xDFFF then None
         else Some [0xE0 + c div 4096, 0x80 + (c div 64) mod 64, 0x80 + c mod 64])
      else if c < 0x110000 then
        Some [0xF0 + c div 262144, 0x80 + (c div 4096) mod 64, 0x80 + (c div 64) mod 64,
              0x80 + c mod 64]
      else None)"

fun utf8_encode :: "ustring \<Rightarrow> nat list option" where
  "utf8_encode [] = Some []"
| "utf8_encode (c # s) =
     (case utf8_char c of
        None \<Rightarrow> None
      | Some bs \<Rightarrow> (case utf8_encode s of None \<Rightarrow> None | Some rest \<Rightarrow> Some (bs @ rest)))"

definition translate_newlines :: "ustring \<Rightarrow> ustring \<Rightarrow> ustring" where
  "translate_newlines linesep s = concat (map (\<lambda>c. if c = 0x0A then linesep else [c]) s)"

definition output_text :: "ustring list \<Rightarrow> ustring" where
  "output_text segments = py_join [0x0A, 0x0A] (filter (\<lambda>segment. segment \<noteq> []) segments)"

text \<open>The whole run: the loop over the pages, then the one write of the output file.\<close>

definition run :: "config \<Rightarrow> py_unicode \<Rightarrow> page list \<Rightarrow> error + run_state" where
  "run cfg U pages =
     (let st = process_pages cfg U initial_state 0 pages in
      case utf8_encode (translate_newlines (os_linesep cfg) (output_text (collected_segments st))) of
        None \<Rightarrow> Inl UnicodeEncodeError
      | Some bytes \<Rightarrow> Inr (st\<lparr> files := files st @ [(OUT_TXT cfg, bytes)] \<rparr>))"

text \<open>The content of a file after the run: the bytes of the last write to its name.\<close>

definition file_content :: "(ustring \<times> nat list) list \<Rightarrow> ustring \<Rightarrow> nat list option" where
  "file_content fs name = map_of (rev fs) name"

section \<open>The order of the segments and the formula records\<close>

text \<open>What one page adds to the segments: its cleaned text when that is not empty, then
  the marker when the page is flagged.\<close>

definition page_segments :: "py_unicode \<Rightarrow> page \<Rightarrow> ustring list" where
  "page_segments U pg =
     (let page_text = cleaned_page_text U (raw_text pg) in
      (if page_text \<noteq> [] then [page_text] else [])
        @ (if page_flagged U pg then [formula_marker] else []))"

lemma process_page_segments:
  "collected_segments (process_page cfg U st pno pg) = collected_segments st @ page_segments U pg"
  by (simp add: process_page_def page_segments_def page_flagged_def Let_def)

lemma process_page_counter:
  "formula_counter (process_page cfg U st pno pg) =
     (if page_flagged U pg then Suc (formula_counter st) else formula_counter st)"
  by (simp add: process_page_def page_flagged_def Let_def)

lemma process_page_ids:
  "map rec_id (formula_records (process_page cfg U st pno pg)) =
     map rec_id (formula_records st) @ (if page_flagged U pg then [Suc (formula_counter st)] else [])"
  by (simp add: process_page_def page_flagged_def Let_def)

lemma process_page_pages:
  "map rec_page (formula_records (process_page cfg U st pno pg)) =
     map rec_page (formula_records st) @ (if page_flagged U pg then [Suc pno] else [])"
  by (simp add: process_page_def page_flagged_def Let_def)

lemma process_pages_segments:
  "collected_segments (process_pages cfg U st pno pages) =
     collected_segments st @ concat (map (page_segments U) pages)"
  by (induction pages arbitrary: st pno) (simp_all add: process_page_segments)

text \<open>
  Claim C3. Whatever the state before the loop, the loop only appends to the segments: the
  segments after it are the segments before it followed, page by page in ascending page
  order, by each page's own segments, which are the page's cleaned text (when not empty)
  immediately followed by the marker (when the page is flagged). So the marker of a page
  stands right after that page's text, or in its place, and never between the segments of
  other pages, and no earlier element is changed.
\<close>

theorem segments_in_page_order:
  "collected_segments (process_pages cfg U st pno pages) =
     collected_segments st @ concat (map (page_segments U) pages)
   \<and> page_segments U pg =
       (if cleaned_page_text U (raw_text pg) \<noteq> [] then [cleaned_page_text U (raw_text pg)] else [])
         @ (if page_flagged U pg then [formula_marker] else [])"
  by (simp add: process_pages_segments page_segments_def Let_def)

lemma process_pages_counter:
  "formula_counter (process_pages cfg U st pno pages) =
     formula_counter st + length (filter (page_flagged U) pages)"
  by (induction pages arbitrary: st pno) (simp_all add: process_page_counter)

lemma process_pages_ids:
  "map rec_id (formula_records (process_pages cfg U st pno pages)) =
     map rec_id (formula_records st)
       @ [Suc (formula_counter st) ..< Suc (formula_counter st + length (filter (page_flagged U) pages))]"
proof (induction pages arbitrary: st pno)
  case Nil
  then show ?case by simp
next
  case (Cons pg pgs)
  show ?case
    by (simp add: Cons.IH process_page_ids process_page_counter upt_conv_Cons del: upt_Suc)
qed

lemma process_pages_pages:
  "map rec_page (formula_records (process_pages cfg U st pno pages)) =
     map rec_page (formula_records st)
       @ map (\<lambda>i. Suc (pno + i)) (filter (\<lambda>i. page_flagged U (pages ! i)) [0..<length pages])"
proof (induction pages arbitrary: st pno)
  case Nil
  then show ?case by simp
next
  case (Cons pg pgs)
  have shift: "filter (\<lambda>i. page_flagged U ((pg # pgs) ! i)) [0..<Suc (length pgs)] =
      (if page_flagged U pg then [0] else [])
        @ map Suc (filter (\<lambda>i. page_flagged U (pgs ! i)) [0..<length pgs])"
  proof -
    have "[0..<Suc (length pgs)] = 0 # map Suc [0..<length pgs]"
      by (simp add: upt_conv_Cons map_Suc_upt del: upt_Suc)
    then show ?thesis by (simp add: filter_map comp_def)
  qed
  show ?case
    by (simp add: Cons.IH process_page_pages shift comp_def del: upt_Suc)
qed

text \<open>
  Claim C4. After the loop over the pages, started from the initial state, the ids of the
  formula records are 1, 2, ..., n in this order (1-based, strictly increasing, no gap:
  the k-th record has id k), the formula counter equals the number n of records, n is
  the number of flagged pages, and the records' page numbers are the 1-based numbers of
  the flagged pages in ascending order: one record for each flagged page.
\<close>

theorem formula_ids_dense:
  "map rec_id (formula_records (process_pages cfg U initial_state 0 pages)) =
      [1 ..< Suc (length (formula_records (process_pages cfg U initial_state 0 pages)))]
   \<and> formula_counter (process_pages cfg U initial_state 0 pages) =
      length (formula_records (process_pages cfg U initial_state 0 pages))
   \<and> length (formula_records (process_pages cfg U initial_state 0 pages)) =
      length (filter (page_flagged U) pages)
   \<and> map rec_page (formula_records (process_pages cfg U initial_state 0 pages)) =
      map Suc (filter (\<lambda>i. page_flagged U (pages ! i)) [0..<length pages])"
proof -
  let ?st = "process_pages cfg U initial_state 0 pages"
  let ?n = "length (filter (page_flagged U) pages)"
  have ids: "map rec_id (formula_records ?st) = [1 ..< Suc ?n]"
    using process_pages_ids [of cfg U initial_state 0 pages] by (simp add: initial_state_def)
  have "length (map rec_id (formula_records ?st)) = length [1 ..< Suc ?n]"
    by (simp only: ids)
  then have len: "length (formula_records ?st) = ?n"
    by (simp del: upt_Suc)
  have cnt: "formula_counter ?st = ?n"
    by (simp add: process_pages_counter initial_state_def)
  have pgs: "map rec_page (formula_records ?st) =
      map Suc (filter (\<lambda>i. page_flagged U (pages ! i)) [0..<length pages])"
    using process_pages_pages [of cfg U initial_state 0 pages] by (simp add: initial_state_def)
  show ?thesis using ids len cnt pgs by simp
qed

section \<open>The OCR transcript\<close>

text \<open>
  Claim C7. The transcript is the OCR text with its whitespace trimmed first and the
  Chinese characters removed afterwards. On the OCR text of the three characters U+4E2D,
  space, \<^verbatim>\<open>x\<close> the trimming finds nothing to remove, the removal takes the first
  character, and the transcript starts with the space.
\<close>

theorem ocr_trim_leading_whitespace:
  "ocr_trim [0x4E2D, 0x20, 0x78] = [0x20, 0x78] \<and> is_space (hd (ocr_trim [0x4E2D, 0x20, 0x78]))"
  by (simp add: ocr_trim_def py_strip_def remove_chinese_characters_def is_space_def is_chinese_def)

section \<open>The line-drop classifier\<close>

lemma ascii_unicode_ok: "py_unicode_ok ascii_unicode"
proof -
  have low: "list_all is_plain a \<Longrightarrow> prefix (map ascii_lower a) (map ascii_lower (a @ b))" for a b
    by simp
  have up: "list_all is_plain a \<Longrightarrow> prefix (map ascii_upper a) (map ascii_upper (a @ b))" for a b
    by simp
  show ?thesis
    unfolding py_unicode_ok_def ascii_unicode_def
    by (simp add: is_space_def is_ascii_letter_def is_ascii_digit_def is_ascii_upper_def
        is_ascii_lower_def) 
qed

lemma ok_decimal: "py_unicode_ok U \<Longrightarrow> c < 128 \<Longrightarrow> is_decimal U c = is_ascii_digit c"
  by (simp add: py_unicode_ok_def)

lemma ok_alnum: "py_unicode_ok U \<Longrightarrow> c < 128 \<Longrightarrow> is_alnum U c = (is_ascii_digit c \<or> is_ascii_letter c)"
  by (simp add: py_unicode_ok_def)

lemma ok_space_not_alnum: "py_unicode_ok U \<Longrightarrow> is_space c \<Longrightarrow> \<not> is_alnum U c"
  by (simp add: py_unicode_ok_def)

lemma ok_lower_prefix:
  "py_unicode_ok U \<Longrightarrow> list_all is_plain a \<Longrightarrow> prefix (map ascii_lower a) (str_lower U (a @ b))"
  by (simp add: py_unicode_ok_def)

lemma ok_lower_plain:
  "py_unicode_ok U \<Longrightarrow> list_all is_plain a \<Longrightarrow> str_lower U a = map ascii_lower a"
  by (simp add: py_unicode_ok_def)

lemma ok_upper_plain:
  "py_unicode_ok U \<Longrightarrow> list_all is_plain a \<Longrightarrow> str_upper U a = map ascii_upper a"
  by (simp add: py_unicode_ok_def)

lemma strip_keeps_core:
  assumes "x \<noteq> []" "\<not> is_space (hd x)" "\<not> is_space (last x)"
  shows "\<exists>z. py_strip (x @ y) = x @ z"
proof -
  from assms obtain c x' where x: "x = c # x'" by (cases x) auto
  with assms have l: "dropWhile is_space (x @ y) = x @ y" by simp
  have r: "dropWhile is_space (rev x) = rev x"
    using assms by (cases "rev x") (auto simp: last_rev hd_rev dest: arg_cong [where f = hd])
  show ?thesis
  proof (cases "list_all is_space (rev y)")
    case True
    then have "dropWhile is_space (rev y @ rev x) = rev x"
      using r by (simp add: dropWhile_append list_all_iff)
    then show ?thesis by (simp add: py_strip_def l)
  next
    case False
    then have "dropWhile is_space (rev y @ rev x) = dropWhile is_space (rev y) @ rev x"
      by (auto simp: dropWhile_append list_all_iff)
    then show ?thesis by (simp add: py_strip_def l)
  qed
qed

lemmas eval_defs = py_strip_def ustr_def is_space_def caption_prefixes_def
  bullet_match_def letter_label_match_def numbered_item_match_def number_only_match_def
  re_many1_def re_many_def re_one_def re_lit_def re_or_def is_bullet_def is_ascii_lower_def
  is_ascii_upper_def is_ascii_digit_def is_dot_or_paren_def ascii_lower_def is_plain_def
  ok_decimal ok_lower_plain

lemma drop_by_caption:
  assumes ok: "py_unicode_ok U"
    and pre: "list_ex (\<lambda>p. prefix p (str_lower U (py_strip line))) caption_prefixes"
  shows "should_drop_line U line"
proof -
  have "str_lower U [] = []" using ok ok_lower_plain [of U "[]"] by simp
  with pre have ne: "py_strip line \<noteq> []"
    by (auto simp: caption_prefixes_def ustr_def)
  then have "line \<noteq> []" by (auto simp: py_strip_def)
  with ne pre show ?thesis by (simp add: should_drop_line_def Let_def)
qed

lemma ascii_lower_less: "ascii_lower c < 128 \<Longrightarrow> c < 128"
  by (auto simp: ascii_lower_def split: if_splits)

lemma figure1_dropped:
  assumes ok: "py_unicode_ok U" and a: "map ascii_lower a = ustr ''figure 1:''"
  shows "should_drop_line U (a @ rest)"
proof -
  have plain: "list_all is_plain a"
  proof -
    have "\<forall>c \<in> set (map ascii_lower a). c < 128" by (simp only: a) (simp add: ustr_def)
    then show ?thesis by (auto simp: list_all_iff is_plain_def intro: ascii_lower_less)
  qed
  from a have ne: "a \<noteq> []" by (auto simp: ustr_def)
  have "ascii_lower (hd a) = hd (map ascii_lower a)" using ne by (simp add: hd_map)
  then have h: "\<not> is_space (hd a)"
    by (simp only: a) (auto simp: ustr_def ascii_lower_def is_space_def split: if_splits)
  have "ascii_lower (last a) = last (map ascii_lower a)" using ne by (simp add: last_map)
  then have l: "\<not> is_space (last a)"
    by (simp only: a) (auto simp: ustr_def ascii_lower_def is_space_def split: if_splits)
  from strip_keeps_core [OF ne h l] obtain z where z: "py_strip (a @ rest) = a @ z" by blast
  have "prefix (map ascii_lower a) (str_lower U (a @ z))"
    using ok plain by (rule ok_lower_prefix)
  then have "prefix (ustr ''figure 1:'') (str_lower U (py_strip (a @ rest)))"
    by (simp only: a z)
  moreover have "prefix (ustr ''figure '') (ustr ''figure 1:'')" by (simp add: ustr_def)
  ultimately have "prefix (ustr ''figure '') (str_lower U (py_strip (a @ rest)))"
    by (rule prefix_order.trans [rotated])
  then have "list_ex (\<lambda>p. prefix p (str_lower U (py_strip (a @ rest)))) caption_prefixes"
    by (simp add: caption_prefixes_def)
  with ok show ?thesis by (rule drop_by_caption)
qed

lemma fig_dot: "py_unicode_ok U \<Longrightarrow> should_drop_line U (ustr ''Fig.'')"
  by (simp add: should_drop_line_def Let_def eval_defs)

lemma table_dot: "py_unicode_ok U \<Longrightarrow> should_drop_line U (ustr ''Table.'')"
  by (simp add: should_drop_line_def Let_def eval_defs)

lemma figure_dot: "py_unicode_ok U \<Longrightarrow> \<not> should_drop_line U (ustr ''Figure.'')"
  by (simp add: should_drop_line_def Let_def eval_defs)

lemma figures_great: "py_unicode_ok U \<Longrightarrow> \<not> should_drop_line U (ustr ''Figures are great'')"
  by (simp add: should_drop_line_def Let_def eval_defs)

lemma figure_space: "py_unicode_ok U \<Longrightarrow> \<not> should_drop_line U (ustr ''figure '')"
  by (simp add: should_drop_line_def Let_def eval_defs)

text \<open>
  Claim C6, as amended. The classifier strips the line first and compares the lowercased
  stripped line with the eight caption prefixes: whenever that text starts with one of
  them the line is dropped. In particular every line that starts, in any case of its ASCII
  letters, with \<^verbatim>\<open>Figure 1:\<close> is dropped, and so are the lines \<^verbatim>\<open>Fig.\<close> and
  \<^verbatim>\<open>Table.\<close>. The list has no prefix \<^verbatim>\<open>figure.\<close>: the line \<^verbatim>\<open>Figure.\<close> is not
  dropped, and neither is \<^verbatim>\<open>Figures are great\<close>.
\<close>

theorem caption_lines_dropped:
  assumes "py_unicode_ok U"
  shows "(list_ex (\<lambda>p. prefix p (str_lower U (py_strip line))) caption_prefixes
            \<longrightarrow> should_drop_line U line)
       \<and> (map ascii_lower a = ustr ''figure 1:'' \<longrightarrow> should_drop_line U (a @ rest))
       \<and> should_drop_line U (ustr ''Fig.'')
       \<and> should_drop_line U (ustr ''Table.'')
       \<and> \<not> should_drop_line U (ustr ''Figure.'')
       \<and> \<not> should_drop_line U (ustr ''Figures are great'')"
  using assms drop_by_caption figure1_dropped fig_dot table_dot figure_dot figures_great
  by blast

text \<open>The theorem at the ASCII tables, on a table caption and on a figure caption.\<close>

theorem caption_lines_dropped_witness:
  "py_unicode_ok ascii_unicode
   \<and> list_ex (\<lambda>p. prefix p (str_lower ascii_unicode (py_strip (ustr ''  Table: results ''))))
        caption_prefixes
   \<and> should_drop_line ascii_unicode (ustr ''  Table: results '')
   \<and> map ascii_lower (ustr ''FiGuRe 1:'') = ustr ''figure 1:''
   \<and> should_drop_line ascii_unicode (ustr ''FiGuRe 1:'' @ ustr '' Setup'')
   \<and> \<not> should_drop_line ascii_unicode (ustr ''Figures are great'')"
proof -
  have h1: "list_ex (\<lambda>p. prefix p (str_lower ascii_unicode (py_strip (ustr ''  Table: results ''))))
        caption_prefixes"
    by (simp add: ascii_unicode_def eval_defs)
  have h2: "map ascii_lower (ustr ''FiGuRe 1:'') = ustr ''figure 1:''"
    by (simp add: eval_defs)
  show ?thesis
    using caption_lines_dropped [OF ascii_unicode_ok,
        of "ustr ''  Table: results ''" "ustr ''FiGuRe 1:''" "ustr '' Setup''"]
      ascii_unicode_ok h1 h2
    by blast
qed

text \<open>
  Claim C6 as the specification states it fails on the code: the line \<^verbatim>\<open>Figure.\<close> is
  not dropped, and a line that is the prefix \<^verbatim>\<open>figure\<close> and a space alone starts with a
  caption prefix and is not dropped either, since its stripped text is \<^verbatim>\<open>figure\<close>.
\<close>

theorem caption_claim_counterexample:
  "\<not> should_drop_line ascii_unicode (ustr ''Figure.'')
   \<and> prefix (ustr ''figure '') (str_lower ascii_unicode (ustr ''figure ''))
   \<and> \<not> should_drop_line ascii_unicode (ustr ''figure '')"
  using figure_dot [OF ascii_unicode_ok] figure_space [OF ascii_unicode_ok]
  by (simp add: ascii_unicode_def eval_defs)

lemma letter_label_match_iff:
  "letter_label_match s \<longleftrightarrow>
     (\<exists>pre c w rest. (pre = [] \<or> pre = ustr ''('') \<and> is_ascii_lower c \<and> is_space w
        \<and> s = pre @ [c, 0x29, w] @ rest)"
proof
  assume "letter_label_match s"
  then consider
      (paren) "re_lit (ustr ''('') s \<bind> re_one is_ascii_lower \<bind> re_lit (ustr '')'') \<bind> re_many1 is_space \<noteq> None"
    | (bare) "re_one is_ascii_lower s \<bind> re_lit (ustr '')'') \<bind> re_many1 is_space \<noteq> None"
    by (auto simp: letter_label_match_def re_or_def split: option.splits)
  then show "\<exists>pre c w rest. (pre = [] \<or> pre = ustr ''('') \<and> is_ascii_lower c \<and> is_space w
        \<and> s = pre @ [c, 0x29, w] @ rest"
  proof cases
    case paren
    then obtain c w rest where "s = 0x28 # c # 0x29 # w # rest" "is_ascii_lower c" "is_space w"
      by (auto simp: re_lit_def re_one_def re_many1_def ustr_def prefix_def
          split: Option.bind_splits if_splits list.splits)
    then show ?thesis by (intro exI [of _ "ustr ''(''"] exI [of _ c] exI [of _ w] exI [of _ rest])
        (simp add: ustr_def)
  next
    case bare
    then obtain c w rest where "s = c # 0x29 # w # rest" "is_ascii_lower c" "is_space w"
      by (auto simp: re_lit_def re_one_def re_many1_def ustr_def prefix_def
          split: Option.bind_splits if_splits list.splits)
    then show ?thesis by (intro exI [of _ "[]"] exI [of _ c] exI [of _ w] exI [of _ rest]) simp
  qed
next
  assume "\<exists>pre c w rest. (pre = [] \<or> pre = ustr ''('') \<and> is_ascii_lower c \<and> is_space w
        \<and> s = pre @ [c, 0x29, w] @ rest"
  then obtain pre c w rest where h: "pre = [] \<or> pre = ustr ''(''" "is_ascii_lower c" "is_space w"
      "s = pre @ [c, 0x29, w] @ rest" by blast
  from h(1) show "letter_label_match s"
  proof
    assume "pre = []"
    with h show ?thesis
      by (auto simp: letter_label_match_def re_or_def re_lit_def re_one_def re_many1_def ustr_def
          split: option.splits)
  next
    assume "pre = ustr ''(''"
    with h show ?thesis
      by (auto simp: letter_label_match_def re_or_def re_lit_def re_one_def re_many1_def ustr_def
          split: option.splits)
  qed
qed


lemma labelled_line_dropped:
  assumes ok: "py_unicode_ok U"
    and c: "is_ascii_letter c" and w: "is_space w" and pre: "pre = [] \<or> pre = ustr ''(''"
    and s: "py_strip line = pre @ [c, 0x29, w] @ rest"
  shows "letter_label_match (str_lower U (py_strip line)) \<and> should_drop_line U line"
proof -
  let ?a = "pre @ [c, 0x29, w]"
  have plain: "list_all is_plain ?a"
    using c w pre
    by (auto simp: is_plain_def ustr_def is_ascii_letter_def is_ascii_upper_def is_ascii_lower_def)
  have "prefix (map ascii_lower ?a) (str_lower U (?a @ rest))"
    using ok plain by (rule ok_lower_prefix)
  then obtain r where r: "str_lower U (?a @ rest) = map ascii_lower ?a @ r"
    by (auto simp: prefix_def)
  have w': "ascii_lower w = w"
    using w by (auto simp: ascii_lower_def is_ascii_upper_def is_space_def)
  have m: "map ascii_lower ?a = pre @ [ascii_lower c, 0x29, w]"
    using pre w' by (auto simp: ustr_def ascii_lower_def is_ascii_upper_def)
  have lc: "is_ascii_lower (ascii_lower c)"
    using c by (auto simp: ascii_lower_def is_ascii_letter_def is_ascii_upper_def is_ascii_lower_def)
  have low: "str_lower U (py_strip line) = pre @ [ascii_lower c, 0x29, w] @ r"
    using r m s by simp
  have match: "letter_label_match (str_lower U (py_strip line))"
    unfolding letter_label_match_iff using pre lc w low by blast
  have "py_strip line \<noteq> []" using s by simp
  moreover from this have "line \<noteq> []" by (auto simp: py_strip_def)
  ultimately have "should_drop_line U line"
    using match by (simp add: should_drop_line_def Let_def)
  with match show ?thesis by simp
qed

lemma a_word_kept: "py_unicode_ok U \<Longrightarrow> \<not> should_drop_line U (ustr ''a word'')"
  by (simp add: should_drop_line_def Let_def eval_defs)

lemma bare_letter_no_match: "is_space w \<Longrightarrow> \<not> letter_label_match (c # w # rest)"
  by (auto simp: letter_label_match_def re_or_def re_lit_def re_one_def re_many1_def ustr_def
      is_space_def is_ascii_lower_def split: option.splits Option.bind_splits)

text \<open>
  Claim C10. The letter-label pattern is matched against the lowercased stripped line. So
  a line whose stripped text starts with an ASCII letter of either case, in parentheses or
  bare, then a closing parenthesis and a whitespace character, is dropped. The pattern
  matches exactly the texts that start with an optional opening parenthesis, a lowercase
  letter, the closing parenthesis and a whitespace character: a text that starts with a
  letter and whitespace, with no closing parenthesis, does not match, and the line
  \<^verbatim>\<open>a word\<close> is not dropped.
\<close>

theorem letter_label_rule:
  assumes "py_unicode_ok U"
  shows "(is_ascii_letter c \<and> is_space w \<and> (pre = [] \<or> pre = ustr ''('')
            \<and> py_strip line = pre @ [c, 0x29, w] @ rest
          \<longrightarrow> letter_label_match (str_lower U (py_strip line)) \<and> should_drop_line U line)
       \<and> (letter_label_match s \<longleftrightarrow>
            (\<exists>p l v r. (p = [] \<or> p = ustr ''('') \<and> is_ascii_lower l \<and> is_space v
               \<and> s = p @ [l, 0x29, v] @ r))
       \<and> (is_space v' \<longrightarrow> \<not> letter_label_match (l' # v' # r'))
       \<and> \<not> letter_label_match (str_lower U (py_strip (ustr ''a word'')))
       \<and> \<not> should_drop_line U (ustr ''a word'')"
proof (intro conjI impI)
  assume h: "is_ascii_letter c \<and> is_space w \<and> (pre = [] \<or> pre = ustr ''('')
      \<and> py_strip line = pre @ [c, 0x29, w] @ rest"
  with assms have "letter_label_match (str_lower U (py_strip line)) \<and> should_drop_line U line"
    by (intro labelled_line_dropped [of U c w pre line rest]) simp_all
  then show "letter_label_match (str_lower U (py_strip line))" and "should_drop_line U line"
    by simp_all
next
  show "letter_label_match s \<longleftrightarrow>
      (\<exists>p l v r. (p = [] \<or> p = ustr ''('') \<and> is_ascii_lower l \<and> is_space v
         \<and> s = p @ [l, 0x29, v] @ r)"
    by (rule letter_label_match_iff)
next
  assume "is_space v'"
  then show "\<not> letter_label_match (l' # v' # r')" by (rule bare_letter_no_match)
next
  show "\<not> letter_label_match (str_lower U (py_strip (ustr ''a word'')))"
    using assms by (simp add: eval_defs)
next
  show "\<not> should_drop_line U (ustr ''a word'')"
    using assms by (rule a_word_kept)
qed

text \<open>The theorem at the ASCII tables, on labels of both cases and on \<^verbatim>\<open>a word\<close>.\<close>

theorem letter_label_rule_witness:
  "py_unicode_ok ascii_unicode
   \<and> should_drop_line ascii_unicode (ustr ''(A) first item'')
   \<and> should_drop_line ascii_unicode (ustr ''a) first item'')
   \<and> letter_label_match (str_lower ascii_unicode (py_strip (ustr ''B) second '')))
   \<and> \<not> letter_label_match (ustr ''a word'')
   \<and> \<not> should_drop_line ascii_unicode (ustr ''a word'')"
proof -
  have s1: "py_strip (ustr ''(A) first item'') = ustr ''('' @ [0x41, 0x29, 0x20] @ ustr ''first item''"
    by (simp add: eval_defs)
  have s2: "py_strip (ustr ''a) first item'') = [] @ [0x61, 0x29, 0x20] @ ustr ''first item''"
    by (simp add: eval_defs)
  have s3: "py_strip (ustr ''B) second '') = [] @ [0x42, 0x29, 0x20] @ ustr ''second''"
    by (simp add: eval_defs)
  have l: "is_ascii_letter 0x41" "is_ascii_letter 0x61" "is_ascii_letter 0x42" "is_space 0x20"
    by (simp_all add: is_ascii_letter_def eval_defs)
  have w: "ustr ''a word'' = 0x61 # 0x20 # ustr ''word''" by (simp add: ustr_def)
  note r1 = letter_label_rule [OF ascii_unicode_ok, of "0x41" "0x20" "ustr ''(''"
      "ustr ''(A) first item''" "ustr ''first item''" "[]" "0x20" "0x61" "ustr ''word''"]
  note r2 = letter_label_rule [OF ascii_unicode_ok, of "0x61" "0x20" "[]"
      "ustr ''a) first item''" "ustr ''first item''" "[]" "0x20" "0x61" "ustr ''word''"]
  note r3 = letter_label_rule [OF ascii_unicode_ok, of "0x42" "0x20" "[]"
      "ustr ''B) second ''" "ustr ''second''" "[]" "0x20" "0x61" "ustr ''word''"]
  have a: "should_drop_line ascii_unicode (ustr ''(A) first item'')"
    using r1 s1 l by blast
  have b: "should_drop_line ascii_unicode (ustr ''a) first item'')"
    using r2 s2 l by blast
  have c: "letter_label_match (str_lower ascii_unicode (py_strip (ustr ''B) second '')))"
    using r3 s3 l by blast
  have d: "\<not> letter_label_match (ustr ''a word'')"
    using r1 l(4) unfolding w by blast
  have e: "\<not> should_drop_line ascii_unicode (ustr ''a word'')"
    using r1 by blast
  show ?thesis using ascii_unicode_ok a b c d e by simp
qed

section \<open>The Celsius repair\<close>

definition fffd_C :: ustring where "fffd_C = [0xFFFD, 0x43]"

lemma celsius_match_Some:
  assumes "celsius_match s = Some r"
  shows "\<exists>t. s = 0xFFFD # t \<and> dropWhile is_replacement_char t = 0x43 # r"
proof -
  from assms obtain c t where s: "s = c # t" and c: "is_replacement_char c"
    and d: "re_lit (ustr ''C'') (dropWhile is_replacement_char t) = Some r"
    by (auto simp: celsius_match_def re_many1_def split: list.splits if_splits Option.bind_splits)
  from d have "dropWhile is_replacement_char t = 0x43 # r"
    by (auto simp: re_lit_def ustr_def prefix_def split: if_splits)
  with s c show ?thesis by (simp add: is_replacement_char_def)
qed

lemma run_then_C_has_pair:
  "dropWhile is_replacement_char t = 0x43 # r \<Longrightarrow> sublist fffd_C (0xFFFD # t)"
proof (induction t)
  case Nil
  then show ?case by simp
next
  case (Cons a t)
  show ?case
  proof (cases "is_replacement_char a")
    case True
    with Cons have "sublist fffd_C (0xFFFD # t)" by simp
    with True show ?thesis
      by (simp add: is_replacement_char_def sublist_Cons_right [of _ "0xFFFD" "0xFFFD # t"])
  next
    case False
    with Cons.prems have "a = 0x43" by simp
    then show ?thesis by (simp add: fffd_C_def sublist_Cons_right)
  qed
qed

lemma celsius_match_pair: "celsius_match s = Some r \<Longrightarrow> sublist fffd_C s"
  using celsius_match_Some run_then_C_has_pair by blast

lemma celsius_match_None_iff:
  "celsius_match (c # t) = None \<longleftrightarrow>
     \<not> (c = 0xFFFD \<and> (\<exists>r. dropWhile is_replacement_char t = 0x43 # r))"
  by (auto simp: celsius_match_def re_many1_def re_lit_def ustr_def prefix_def
      is_replacement_char_def split: Option.bind_splits)

lemma celsius_sub_id: "\<not> sublist fffd_C s \<Longrightarrow> celsius_sub s = s"
proof (induction s rule: celsius_sub.induct)
  case (1 s)
  show ?case
  proof (cases s)
    case Nil
    then show ?thesis by (simp add: celsius_sub.simps)
  next
    case (Cons c t)
    from "1.prems" have none: "celsius_match s = None"
      using celsius_match_pair by (cases "celsius_match s") auto
    from "1.prems" Cons have "\<not> sublist fffd_C t" by (simp add: sublist_Cons_right)
    with "1.IH"(1) [OF _ none] Cons have "celsius_sub t = t" by simp
    with none Cons show ?thesis by (simp add: celsius_sub.simps [of "c # t"])
  qed
qed

lemma celsius_sub_Nil [simp]: "celsius_sub [] = []"
  by (simp add: celsius_sub.simps)

lemma celsius_sub_Cons:
  "celsius_sub (c # t) =
     (case celsius_match (c # t) of Some r \<Rightarrow> [0xB0, 0x43] @ celsius_sub r
      | None \<Rightarrow> c # celsius_sub t)"
  by (simp add: celsius_sub.simps [of "c # t"] split: option.splits)

lemma celsius_sub_head_C:
  "celsius_sub s = 0x43 # u \<Longrightarrow> \<exists>t. s = 0x43 # t"
  by (cases s) (auto simp: celsius_sub_Cons split: option.splits)

lemma celsius_sub_no_pair: "\<not> sublist fffd_C (celsius_sub s)"
proof (induction s rule: celsius_sub.induct)
  case (1 s)
  show ?case
  proof (cases s)
    case Nil
    then show ?thesis by (simp add: fffd_C_def)
  next
    case (Cons c t)
    show ?thesis
    proof (cases "celsius_match s")
      case None
      with "1.IH"(1) Cons have ih: "\<not> sublist fffd_C (celsius_sub t)" by simp
      have "\<not> prefix fffd_C (c # celsius_sub t)"
      proof
        assume "prefix fffd_C (c # celsius_sub t)"
        then obtain u where c: "c = 0xFFFD" and u: "celsius_sub t = 0x43 # u"
          by (auto simp: fffd_C_def prefix_def)
        from celsius_sub_head_C [OF u] obtain t' where "t = 0x43 # t'" by blast
        with c None Cons show False
          by (simp add: celsius_match_None_iff is_replacement_char_def)
      qed
      with ih None Cons show ?thesis
        by (simp add: celsius_sub_Cons sublist_Cons_right)
    next
      case (Some r)
      with "1.IH"(2) Cons have ih: "\<not> sublist fffd_C (celsius_sub r)" by simp
      with Some Cons show ?thesis
        by (simp add: celsius_sub_Cons sublist_Cons_right fffd_C_def)
    qed
  qed
qed

lemma py_replace_id: "\<not> sublist old s \<Longrightarrow> py_replace old new s = s"
proof (induction old new s rule: py_replace.induct)
  case (1 old new s)
  show ?case
  proof (cases "s = [] \<or> old = []")
    case True
    then show ?thesis by (simp add: py_replace.simps)
  next
    case False
    then obtain c t where s: "s = c # t" by (cases s) auto
    from "1.prems" have np: "\<not> prefix old s" by auto
    from "1.prems" s have "\<not> sublist old t" by (simp add: sublist_Cons_right)
    with "1.IH"(2) [OF False np] s have "py_replace old new t = t" by simp
    with False np s show ?thesis by (simp add: py_replace.simps [of old new "c # t"])
  qed
qed

lemma py_count_zero: "py_count old s = 0 \<Longrightarrow> old \<noteq> [] \<Longrightarrow> \<not> sublist old s"
proof (induction old s rule: py_count.induct)
  case (1 old s)
  show ?case
  proof (cases s)
    case Nil
    with "1.prems" show ?thesis by simp
  next
    case (Cons c t)
    with "1.prems" have np: "\<not> prefix old s" and z: "py_count old t = 0"
      by (auto simp: py_count.simps [of old "c # t"] split: if_splits)
    from "1.IH"(2) [OF _ np] Cons z "1.prems"(2) have "\<not> sublist old t" by simp
    with np Cons show ?thesis by (simp add: sublist_Cons_right)
  qed
qed

lemma fix_celsius_eq: "fix_celsius s = celsius_sub (py_replace mojibake_C degree_C s)"
proof (cases "py_count mojibake_C s > 0")
  case True
  then show ?thesis by (simp add: fix_celsius_def Let_def)
next
  case False
  then have "\<not> sublist mojibake_C s"
    by (intro py_count_zero) (simp_all add: mojibake_C_def)
  then have "py_replace mojibake_C degree_C s = s" by (rule py_replace_id)
  with False show ?thesis by (simp add: fix_celsius_def Let_def)
qed

lemma pair_in_mojibake: "sublist fffd_C mojibake_C"
  by (simp add: fffd_C_def mojibake_C_def sublist_Cons_right)

lemma py_replace_Cons_other:
  "c \<noteq> 0xFFFD \<Longrightarrow> py_replace mojibake_C degree_C (c # s) = c # py_replace mojibake_C degree_C s"
  by (subst py_replace.simps) (simp add: mojibake_C_def)

lemma celsius_sub_Cons_other: "c \<noteq> 0xFFFD \<Longrightarrow> celsius_sub (c # s) = c # celsius_sub s"
  by (simp add: celsius_sub_Cons celsius_match_def re_many1_def is_replacement_char_def)

lemma fix_celsius_other: "c \<noteq> 0xFFFD \<Longrightarrow> fix_celsius (c # s) = c # fix_celsius s"
  by (simp add: fix_celsius_eq py_replace_Cons_other celsius_sub_Cons_other)

lemma fix_celsius_literal: "fix_celsius (mojibake_C @ s) = degree_C @ fix_celsius s"
proof -
  have "py_replace mojibake_C degree_C (mojibake_C @ s) = degree_C @ py_replace mojibake_C degree_C s"
    by (subst py_replace.simps) (simp add: mojibake_C_def)
  then show ?thesis
    by (simp add: fix_celsius_eq degree_C_def celsius_sub_Cons_other)
qed

lemma fix_celsius_single: "fix_celsius ([0xFFFD, 0x43] @ s) = degree_C @ fix_celsius s"
proof -
  have "py_replace mojibake_C degree_C (0xFFFD # 0x43 # s) =
      0xFFFD # 0x43 # py_replace mojibake_C degree_C s"
    using py_replace_Cons_other [of "0x43" s]
    by (subst py_replace.simps) (simp add: mojibake_C_def)
  moreover have "celsius_sub (0xFFFD # 0x43 # t) = degree_C @ celsius_sub t" for t
    by (simp add: celsius_sub_Cons celsius_match_def re_many1_def re_lit_def ustr_def
        is_replacement_char_def degree_C_def)
  ultimately show ?thesis by (simp add: fix_celsius_eq)
qed

lemma fix_celsius_triple: "fix_celsius (0xFFFD # mojibake_C) = 0xFFFD # degree_C"
proof -
  have "py_replace mojibake_C degree_C (0xFFFD # mojibake_C) = 0xFFFD # degree_C"
    apply (subst py_replace.simps)
    apply (simp add: mojibake_C_def)
    apply (subst py_replace.simps)
    apply (simp add: mojibake_C_def)
    apply (subst py_replace.simps)
    apply simp
    done
  moreover have "celsius_sub (0xFFFD # degree_C) = 0xFFFD # degree_C"
    by (simp add: celsius_sub_Cons celsius_sub_Cons_other celsius_match_def re_many1_def re_lit_def
        ustr_def is_replacement_char_def degree_C_def)
  ultimately show ?thesis by (simp add: fix_celsius_eq)
qed

text \<open>
  Claim C5. The Celsius repair is the replacement of the literal, two replacement
  characters and \<^verbatim>\<open>C\<close>, followed by the substitution of the pattern, one or more
  replacement characters and \<^verbatim>\<open>C\<close>, in this order. Its result holds no replacement
  character that stands right before a \<^verbatim>\<open>C\<close>; a text that holds none is returned
  unchanged; the literal at the head of a text becomes the degree sign and \<^verbatim>\<open>C\<close>, and
  so does one replacement character and \<^verbatim>\<open>C\<close>; and a character other than the
  replacement character is copied, the repair going on after it. Since the literal goes
  first, of three replacement characters before a \<^verbatim>\<open>C\<close> the first one stays.
\<close>

theorem celsius_repair:
  "fix_celsius s = celsius_sub (py_replace mojibake_C degree_C s)
   \<and> \<not> sublist [0xFFFD, 0x43] (fix_celsius s)
   \<and> (\<not> sublist [0xFFFD, 0x43] s \<longrightarrow> fix_celsius s = s)
   \<and> fix_celsius (mojibake_C @ s) = degree_C @ fix_celsius s
   \<and> fix_celsius ([0xFFFD, 0x43] @ s) = degree_C @ fix_celsius s
   \<and> (c \<noteq> 0xFFFD \<longrightarrow> fix_celsius (c # s) = c # fix_celsius s)
   \<and> fix_celsius (0xFFFD # mojibake_C) = 0xFFFD # degree_C"
proof (intro conjI impI)
  show "fix_celsius s = celsius_sub (py_replace mojibake_C degree_C s)" by (rule fix_celsius_eq)
  show "\<not> sublist [0xFFFD, 0x43] (fix_celsius s)"
    using celsius_sub_no_pair [of "py_replace mojibake_C degree_C s"]
    by (simp add: fix_celsius_eq fffd_C_def)
  show "fix_celsius s = s" if "\<not> sublist [0xFFFD, 0x43] s"
  proof -
    from that have np: "\<not> sublist fffd_C s" by (simp add: fffd_C_def)
    then have "\<not> sublist mojibake_C s"
      using pair_in_mojibake sublist_order.order.trans by blast
    then have "py_replace mojibake_C degree_C s = s" by (rule py_replace_id)
    with np show ?thesis by (simp add: fix_celsius_eq celsius_sub_id)
  qed
  show "fix_celsius (mojibake_C @ s) = degree_C @ fix_celsius s" by (rule fix_celsius_literal)
  show "fix_celsius ([0xFFFD, 0x43] @ s) = degree_C @ fix_celsius s" by (rule fix_celsius_single)
  show "fix_celsius (c # s) = c # fix_celsius s" if "c \<noteq> 0xFFFD"
    using that by (rule fix_celsius_other)
  show "fix_celsius (0xFFFD # mojibake_C) = 0xFFFD # degree_C" by (rule fix_celsius_triple)
qed

text \<open>The theorem on a plain temperature and on the two garbled forms of it.\<close>

theorem celsius_repair_witness:
  "\<not> sublist [0xFFFD, 0x43] (ustr ''20 C'')
   \<and> fix_celsius (ustr ''20 C'') = ustr ''20 C''
   \<and> fix_celsius (ustr ''20 '' @ mojibake_C) = ustr ''20 '' @ degree_C
   \<and> fix_celsius (ustr ''20 '' @ [0xFFFD, 0x43]) = ustr ''20 '' @ degree_C"
proof -
  have h: "\<not> sublist [0xFFFD, 0x43] (ustr ''20 C'')"
    by (simp add: ustr_def sublist_Cons_right)
  have e: "fix_celsius [] = []"
    using celsius_repair [of "[]", THEN conjunct2, THEN conjunct2, THEN conjunct1] by simp
  have n: "(0x32::nat) \<noteq> 0xFFFD" "(0x30::nat) \<noteq> 0xFFFD" "(0x20::nat) \<noteq> 0xFFFD" by simp_all
  have p: "fix_celsius (0x32 # 0x30 # 0x20 # t) = 0x32 # 0x30 # 0x20 # fix_celsius t" for t
    using celsius_repair [of "0x30 # 0x20 # t" "0x32"] celsius_repair [of "0x20 # t" "0x30"]
      celsius_repair [of "t" "0x20"] n by simp
  have a: "fix_celsius (ustr ''20 C'') = ustr ''20 C''"
    using celsius_repair [of "ustr ''20 C''"] h by blast
  have b: "fix_celsius (ustr ''20 '' @ mojibake_C) = ustr ''20 '' @ degree_C"
    using p [of mojibake_C] celsius_repair [of "[]"] e by (simp add: ustr_def)
  have c: "fix_celsius (ustr ''20 '' @ [0xFFFD, 0x43]) = ustr ''20 '' @ degree_C"
    using p [of "[0xFFFD, 0x43]"] celsius_repair [of "[]"] e by (simp add: ustr_def)
  show ?thesis using h a b c by simp
qed

section \<open>clean_article_info_section without an abstract marker\<close>

lemma info_step_not_found:
  "\<not> found_abstract st \<Longrightarrow> \<not> sublist (ustr ''ABSTRACT'') (str_upper U (py_strip line))
     \<Longrightarrow> \<not> found_abstract (info_step U st line)"
  by (simp add: info_step_def Let_def)

lemma info_loop_not_found:
  "\<not> found_abstract st
     \<Longrightarrow> \<forall>line \<in> set ls. \<not> sublist (ustr ''ABSTRACT'') (str_upper U (py_strip line))
     \<Longrightarrow> \<not> found_abstract (foldl (info_step U) st ls)"
  by (induction ls arbitrary: st) (simp_all add: info_step_not_found)

text \<open>
  Claim C8. When no line of the text, stripped and put in upper case, holds
  \<^verbatim>\<open>ABSTRACT\<close>, the function returns the lines of the text (split at the newlines), each
  with its URLs removed, without the lines that are blank after the removal, joined by
  newlines. Nothing else is left out: the title and metadata tests of the loop play no
  part in this result.
\<close>

theorem no_abstract_fallback:
  assumes "\<forall>line \<in> set (py_split 0x0A text).
      \<not> sublist (ustr ''ABSTRACT'') (str_upper U (py_strip line))"
  shows "clean_article_info_section U text =
      py_join [0x0A] (filter (\<lambda>line. py_strip line \<noteq> []) (map remove_urls (py_split 0x0A text)))"
proof (cases "text = []")
  case True
  then show ?thesis
    by (simp add: clean_article_info_section_def remove_urls_def py_strip_def)
next
  case False
  have "\<not> found_abstract (foldl (info_step U) info_init (py_split 0x0A text))"
    using assms by (intro info_loop_not_found) (simp_all add: info_init_def)
  with False show ?thesis
    by (simp add: clean_article_info_section_def Let_def)
qed

text \<open>An example text: its second line holds a metadata cue and is kept.\<close>

definition example_blob :: ustring where
  "example_blob = ustr ''Title'' @ [0x0A] @ ustr ''Received: 1 May'' @ [0x0A, 0x0A]
     @ ustr ''see http://x.org now''"

lemma url_sub_Nil: "url_sub [] = []"
  by (simp add: url_sub.simps)

lemma url_sub_Cons:
  "url_sub (c # t) = (case url_match (c # t) of Some r \<Rightarrow> url_sub r | None \<Rightarrow> c # url_sub t)"
  by (simp add: url_sub.simps [of "c # t"] split: option.splits)

lemmas url_eval = url_sub_Nil url_sub_Cons url_match_def url_http_def url_www_def url_doi_def
  re_lit_def re_one_def re_many_def re_many1_def re_or_def not_space_def is_space_def ustr_def
  is_host_first_def is_host_char_def remove_urls_def

theorem no_abstract_fallback_witness:
  "list_all (\<lambda>line. \<not> sublist (ustr ''ABSTRACT'') (str_upper ascii_unicode (py_strip line)))
      (py_split 0x0A example_blob)
   \<and> clean_article_info_section ascii_unicode example_blob =
       ustr ''Title'' @ [0x0A] @ ustr ''Received: 1 May'' @ [0x0A] @ ustr ''see  now''"
proof -
  have h: "\<forall>line \<in> set (py_split 0x0A example_blob).
      \<not> sublist (ustr ''ABSTRACT'') (str_upper ascii_unicode (py_strip line))"
    by (simp add: example_blob_def ustr_def ascii_unicode_def py_strip_def is_space_def
        ascii_upper_def is_ascii_lower_def sublist_Cons_right)
  have e: "py_join [0x0A] (filter (\<lambda>line. py_strip line \<noteq> [])
        (map remove_urls (py_split 0x0A example_blob))) =
      ustr ''Title'' @ [0x0A] @ ustr ''Received: 1 May'' @ [0x0A] @ ustr ''see  now''"
    by (simp add: example_blob_def url_eval py_strip_def)
  show ?thesis using no_abstract_fallback [OF h] h e by (simp add: list_all_iff)
qed

section \<open>Evaluating the page loop on concrete pages\<close>

text \<open>The recursion equations of the scanning functions, in the form the simplifier uses
  on a text that is given character by character.\<close>

lemma py_count_Nil: "py_count old [] = 0" by (simp add: py_count.simps)
lemma py_count_Cons:
  "py_count old (c # t) =
     (if old = [] then 0
      else if prefix old (c # t) then Suc (py_count old (drop (length old) (c # t)))
      else py_count old t)"
  by (simp add: py_count.simps [of old "c # t"])
lemma py_replace_Nil: "py_replace old new [] = []" by (simp add: py_replace.simps)
lemma py_replace_Cons:
  "py_replace old new (c # t) =
     (if old = [] then c # t
      else if prefix old (c # t) then new @ py_replace old new (drop (length old) (c # t))
      else c # py_replace old new t)"
  by (simp add: py_replace.simps [of old new "c # t"])
lemma caps_sub_Nil: "caps_sub U prev [] = []" by (simp add: caps_sub.simps)
lemma caps_sub_Cons:
  "caps_sub U prev (c # t) =
     (case caps_match U prev (c # t) of
        Some r \<Rightarrow>
          (let m = take (length (c # t) - length r) (c # t)
           in filter (\<lambda>c. c \<noteq> 0x20) m @ caps_sub U (Some (last m)) r)
      | None \<Rightarrow> c # caps_sub U (Some c) t)"
  by (simp add: caps_sub.simps [of U prev "c # t"] split: option.splits)

lemmas page_eval = py_count_Nil py_count_Cons py_replace_Nil py_replace_Cons caps_sub_Nil caps_sub_Cons
  celsius_sub_Nil celsius_sub_Cons celsius_match_def is_replacement_char_def
  fix_celsius_def mojibake_C_def degree_C_def normalize_page_text_def
  remove_chinese_characters_def is_chinese_def collapse_spaced_capital_sequences_def
  caps_match_def caps_tail.simps caps_unit_def caps_final_def word_boundary_def is_word_def
  head_char_def cleaned_page_text_def clean_line_def py_splitlines_def is_linebreak_def
  py_rstrip_def py_strip_chars_def List.map_filter_def remove_numeric_heading_prefix_def
  heading_match_def not_newline_def should_drop_line_def Let_def eval_defs is_ascii_letter_def
  ascii_unicode_def complex_formula_lines_def is_math_like_def math_match_def fraction_match_def
  is_math_symbol_def is_letter_or_digit_def enumerate_eq_zip ocr_trim_def ocr_differs_def
  ocr_has_math_def upt_conv_Cons

section \<open>The formula signals\<close>

lemma complex_formula_lines_set:
  "(n, l) \<in> set (complex_formula_lines U p) \<longleftrightarrow>
     1 \<le> n \<and> n \<le> length (py_splitlines p) \<and> l = py_splitlines p ! (n - 1)
       \<and> is_math_like U l \<and> 5 < length (py_strip l)"
proof -
  have "(n, l) \<in> set (complex_formula_lines U p) \<longleftrightarrow>
      (\<exists>i. n = Suc i \<and> (i, l) \<in> set (enumerate 0 (py_splitlines p))
         \<and> is_math_like U l \<and> 5 < length (py_strip l))"
    by (auto simp: complex_formula_lines_def)
  also have "\<dots> \<longleftrightarrow> 1 \<le> n \<and> n \<le> length (py_splitlines p) \<and> l = py_splitlines p ! (n - 1)
       \<and> is_math_like U l \<and> 5 < length (py_strip l)"
    by (cases n) (auto simp: in_set_enumerate_eq)
  finally show ?thesis .
qed

lemma complex_formula_lines_order:
  "map fst (complex_formula_lines U p) =
     map Suc (filter (\<lambda>i. is_math_like U (py_splitlines p ! i) \<and> 5 < length (py_strip (py_splitlines p ! i)))
       [0..<length (py_splitlines p)])"
proof -
  have "filter (\<lambda>(i, line). is_math_like U line \<and> length (py_strip line) > 5) (enumerate 0 xs) =
      map (\<lambda>i. (i, xs ! i)) (filter (\<lambda>i. is_math_like U (xs ! i) \<and> 5 < length (py_strip (xs ! i))) [0..<length xs])" for xs
  proof -
    have "enumerate 0 xs = map (\<lambda>i. (i, xs ! i)) [0..<length xs]"
      by (rule nth_equalityI) (simp_all add: nth_enumerate_eq)
    then show ?thesis by (simp add: filter_map comp_def)
  qed
  then show ?thesis by (simp add: complex_formula_lines_def comp_def)
qed

lemma process_page_record_lines:
  "map rec_lines (formula_records (process_page cfg U st pno pg)) =
     map rec_lines (formula_records st)
       @ (if page_flagged U pg then [complex_formula_lines U (cleaned_page_text U (raw_text pg))] else [])"
  by (simp add: process_page_def page_flagged_def Let_def)

lemma process_page_record_ocr:
  "map rec_ocr (formula_records (process_page cfg U st pno pg)) =
     map rec_ocr (formula_records st) @ (if page_flagged U pg then [ocr_trim (ocr_text pg)] else [])"
  by (simp add: process_page_def page_flagged_def Let_def)

text \<open>
  Claim C1, as amended. The formula signals are computed over the page text after the loop
  over its lines, the text that is appended as the page's segment: a page is flagged when
  the OCR transcript is math-like, or the transcript is longer than 50 and is not a
  substring of that text, or a line of that text is collected; the collected lines are
  the lines of that text that are math-like and whose stripped length exceeds 5, each with
  its 1-based number among the lines of that text, in ascending order; and the record of a
  flagged page holds these lines and the transcript.
\<close>

theorem formula_signals:
  "map rec_lines (formula_records (process_page cfg U st pno pg)) =
      map rec_lines (formula_records st)
        @ (if page_flagged U pg then [complex_formula_lines U (cleaned_page_text U (raw_text pg))]
           else [])
   \<and> map rec_ocr (formula_records (process_page cfg U st pno pg)) =
      map rec_ocr (formula_records st) @ (if page_flagged U pg then [ocr_trim (ocr_text pg)] else [])
   \<and> page_flagged U pg =
      (is_math_like U (ocr_trim (ocr_text pg))
       \<or> ocr_differs (ocr_trim (ocr_text pg)) (cleaned_page_text U (raw_text pg))
       \<or> complex_formula_lines U (cleaned_page_text U (raw_text pg)) \<noteq> [])
   \<and> ocr_differs t p = (50 < length t \<and> \<not> sublist t p)
   \<and> ((n, l) \<in> set (complex_formula_lines U p) \<longleftrightarrow>
        1 \<le> n \<and> n \<le> length (py_splitlines p) \<and> l = py_splitlines p ! (n - 1)
          \<and> is_math_like U l \<and> 5 < length (py_strip l))
   \<and> map fst (complex_formula_lines U p) =
        map Suc (filter (\<lambda>i. is_math_like U (py_splitlines p ! i)
                              \<and> 5 < length (py_strip (py_splitlines p ! i)))
                   [0..<length (py_splitlines p)])"
  using complex_formula_lines_set [of n l U p] complex_formula_lines_order [of U p]
  by (simp add: process_page_record_lines process_page_record_ocr page_flagged_def Let_def
      ocr_has_math_def ocr_differs_def)

text \<open>
  Two pages for claim C1 as the specification states it. The first has a bulleted line
  with a formula and then a line with a formula; the second is one bulleted line whose
  text after the bullet is what the OCR engine reads, 51 letters.
\<close>

definition page_c :: ustring where
  "page_c = ustr ''- a = b'' @ [0x0A] @ ustr ''c = d + e''"

definition posix_config :: config where
  "posix_config = \<lparr> BASE = ustr ''doc'', OUT_TXT = ustr ''doc-cleaned.txt'',
     IMG_DIR = ustr ''doc_pageimgs'', os_path_join = (\<lambda>a b. a @ ustr ''/'' @ b),
     os_linesep = [0x0A] \<rparr>"

definition page_b :: ustring where
  "page_b = ustr ''- aaaaaaaaaaaaaaaaaaaaaaaaaaaaaaaaaaaaaaaaaaaaaaaaaaa''"

definition page_b_ocr :: ustring where
  "page_b_ocr = ustr ''aaaaaaaaaaaaaaaaaaaaaaaaaaaaaaaaaaaaaaaaaaaaaaaaaaa''"

lemma c1: "cleaned_page_text ascii_unicode page_c = ustr ''c = d + e''"
  by (simp add: page_c_def page_eval)

lemma c2: "normalize_page_text ascii_unicode page_c = page_c"
  by (simp add: page_c_def page_eval)

lemma c3: "complex_formula_lines ascii_unicode (ustr ''c = d + e'') = [(1, ustr ''c = d + e'')]"
  by (simp add: page_eval)

lemma c4: "complex_formula_lines ascii_unicode page_c = [(1, ustr ''- a = b''), (2, ustr ''c = d + e'')]"
  by (simp add: page_c_def page_eval)

text \<open>
  Claim C1 as stated fails on the code. On the first page the text before the loop over
  the lines has two math-like lines, with the numbers 1 and 2, and the record holds one
  line, with the number 1: the bulleted line is dropped before the signals are computed.
  On the second page the transcript is a substring of the text before the loop over the
  lines, and the signal of the code holds, since the cleaned text is empty.
\<close>

theorem formula_signals_counterexample:
  "map rec_lines (formula_records (process_page posix_config ascii_unicode initial_state 0
       \<lparr> raw_text = page_c, img_bytes = [], ocr_text = [] \<rparr>)) = [[(1, ustr ''c = d + e'')]]
   \<and> complex_formula_lines ascii_unicode (normalize_page_text ascii_unicode page_c) =
       [(1, ustr ''- a = b''), (2, ustr ''c = d + e'')]
   \<and> ocr_differs (ocr_trim page_b_ocr) (cleaned_page_text ascii_unicode page_b)
   \<and> \<not> ocr_differs (ocr_trim page_b_ocr) (normalize_page_text ascii_unicode page_b)"
proof -
  have f: "page_flagged ascii_unicode \<lparr> raw_text = page_c, img_bytes = [], ocr_text = [] \<rparr>"
    by (simp add: page_flagged_def c1 c3 Let_def)
  have a: "map rec_lines (formula_records (process_page posix_config ascii_unicode initial_state 0
       \<lparr> raw_text = page_c, img_bytes = [], ocr_text = [] \<rparr>)) = [[(1, ustr ''c = d + e'')]]"
    by (simp add: process_page_record_lines f c1 c3 initial_state_def)
  have b: "complex_formula_lines ascii_unicode (normalize_page_text ascii_unicode page_c) =
       [(1, ustr ''- a = b''), (2, ustr ''c = d + e'')]"
    by (simp add: c2 c4)
  have t: "ocr_trim page_b_ocr = page_b_ocr"
    by (simp add: page_b_ocr_def page_eval)
  have e: "cleaned_page_text ascii_unicode page_b = []"
    by (simp add: page_b_def page_eval)
  have n: "normalize_page_text ascii_unicode page_b = page_b"
    by (simp add: page_b_def page_eval)
  have l: "50 < length page_b_ocr" by (simp add: page_b_ocr_def ustr_def)
  have s: "sublist page_b_ocr page_b"
    by (simp add: page_b_ocr_def page_b_def ustr_def sublist_Cons_right)
  have c: "ocr_differs (ocr_trim page_b_ocr) (cleaned_page_text ascii_unicode page_b)"
    using l by (simp add: t e ocr_differs_def) (simp add: page_b_ocr_def ustr_def)
  have d: "\<not> ocr_differs (ocr_trim page_b_ocr) (normalize_page_text ascii_unicode page_b)"
    using s by (simp add: t n ocr_differs_def)
  show ?thesis using a b c d by simp
qed

section \<open>The output file\<close>

lemma translate_newlines_posix: "translate_newlines [0x0A] s = s"
  by (induction s) (simp_all add: translate_newlines_def)

lemma page_segments_nonempty: "seg \<in> set (page_segments U pg) \<Longrightarrow> seg \<noteq> []"
  by (auto simp: page_segments_def Let_def formula_marker_def ustr_def split: if_splits)

lemma strip_chars_ends:
  assumes "py_strip_chars cs s \<noteq> []"
  shows "hd (py_strip_chars cs s) \<notin> set cs \<and> last (py_strip_chars cs s) \<notin> set cs"
proof -
  let ?P = "\<lambda>c. c \<in> set cs"
  let ?d = "dropWhile ?P s"
  let ?e = "dropWhile ?P (rev ?d)"
  from assms have e: "?e \<noteq> []" by (simp add: py_strip_chars_def)
  have d: "?d \<noteq> []"
  proof
    assume "?d = []"
    then have "?e = []" by (simp only: rev.simps dropWhile.simps)
    with e show False by (simp only:)
  qed
  have "last (rev ?e) = hd ?e" using e by (simp add: last_rev)
  moreover have "\<not> ?P (hd ?e)" using e by (rule hd_dropWhile)
  moreover have "hd (rev ?e) = last ?e" using e by (simp add: hd_rev)
  moreover have "last ?e = last (rev ?d)"
    using e by (metis append_Nil2 last_appendR takeWhile_dropWhile_id)
  moreover have "last (rev ?d) = hd ?d" using d by (simp add: last_rev)
  moreover have "\<not> ?P (hd ?d)" using d by (rule hd_dropWhile)
  ultimately show ?thesis by (simp add: py_strip_chars_def)
qed

lemma page_segments_ends:
  "seg \<in> set (page_segments U pg) \<Longrightarrow> hd seg \<noteq> 0x0A \<and> last seg \<noteq> 0x0A"
  using strip_chars_ends [of "[0x0A]"]
  by (auto simp: page_segments_def Let_def formula_marker_def ustr_def cleaned_page_text_def
      split: if_splits)

lemma py_join_ends:
  "xs \<noteq> [] \<Longrightarrow> \<forall>x \<in> set xs. x \<noteq> [] \<Longrightarrow>
     py_join sep xs \<noteq> [] \<and> hd (py_join sep xs) = hd (hd xs) \<and> last (py_join sep xs) = last (last xs)"
  by (induction sep xs rule: py_join.induct) auto

lemma loop_segments_good:
  assumes "seg \<in> set (collected_segments (process_pages cfg U initial_state 0 pages))"
  shows "seg \<noteq> [] \<and> hd seg \<noteq> 0x0A \<and> last seg \<noteq> 0x0A"
  using assms page_segments_nonempty page_segments_ends
  by (auto simp: process_pages_segments initial_state_def)

lemma output_text_ends:
  assumes "output_text (collected_segments (process_pages cfg U initial_state 0 pages)) \<noteq> []"
  shows "hd (output_text (collected_segments (process_pages cfg U initial_state 0 pages))) \<noteq> 0x0A
     \<and> last (output_text (collected_segments (process_pages cfg U initial_state 0 pages))) \<noteq> 0x0A"
proof -
  let ?segs = "collected_segments (process_pages cfg U initial_state 0 pages)"
  have all: "\<forall>x \<in> set ?segs. x \<noteq> [] \<and> hd x \<noteq> 0x0A \<and> last x \<noteq> 0x0A"
    using loop_segments_good by blast
  then have f: "filter (\<lambda>segment. segment \<noteq> []) ?segs = ?segs" by (simp add: filter_id_conv)
  from assms have ne: "?segs \<noteq> []" by (auto simp: output_text_def)
  then have "hd ?segs \<in> set ?segs" "last ?segs \<in> set ?segs" by simp_all
  with all have "hd (hd ?segs) \<noteq> 0x0A" "last (last ?segs) \<noteq> 0x0A" by blast+
  with py_join_ends [OF ne, of "[0x0A, 0x0A]"] all f show ?thesis
    by (simp add: output_text_def)
qed

text \<open>
  Claim C2, as amended. When the run ends without an error, the output file is written by
  the last write of the run, after the loop over the pages, and its bytes are the UTF-8
  encoding of the double-newline join of the non-empty segments in which every newline
  has become the platform's line separator; where the line separator is the newline,
  they are the UTF-8 encoding of the join itself. The run ends without an error whenever
  that text has a UTF-8 encoding. The joined text, when not empty, neither starts nor ends
  with a newline: the join leaves no separator at its ends.
\<close>

theorem output_file_content:
  "(run cfg U pages = Inr st \<longrightarrow>
      (\<exists>bytes. files st = files (process_pages cfg U initial_state 0 pages) @ [(OUT_TXT cfg, bytes)]
         \<and> file_content (files st) (OUT_TXT cfg) = Some bytes
         \<and> Some bytes = utf8_encode (translate_newlines (os_linesep cfg)
              (py_join [0x0A, 0x0A] (filter (\<lambda>segment. segment \<noteq> []) (collected_segments st))))
         \<and> (os_linesep cfg = [0x0A] \<longrightarrow> Some bytes = utf8_encode
              (py_join [0x0A, 0x0A] (filter (\<lambda>segment. segment \<noteq> []) (collected_segments st)))))
      \<and> collected_segments st = collected_segments (process_pages cfg U initial_state 0 pages))
   \<and> (utf8_encode (translate_newlines (os_linesep cfg)
          (output_text (collected_segments (process_pages cfg U initial_state 0 pages)))) \<noteq> None
        \<longrightarrow> (\<exists>st'. run cfg U pages = Inr st'))
   \<and> (output_text (collected_segments (process_pages cfg U initial_state 0 pages)) \<noteq> []
        \<longrightarrow> hd (output_text (collected_segments (process_pages cfg U initial_state 0 pages))) \<noteq> 0x0A
          \<and> last (output_text (collected_segments (process_pages cfg U initial_state 0 pages))) \<noteq> 0x0A)"
proof (intro conjI impI)
  assume r: "run cfg U pages = Inr st"
  let ?loop = "process_pages cfg U initial_state 0 pages"
  from r obtain bytes where
    b: "utf8_encode (translate_newlines (os_linesep cfg) (output_text (collected_segments ?loop))) = Some bytes"
    and st: "st = ?loop\<lparr> files := files ?loop @ [(OUT_TXT cfg, bytes)] \<rparr>"
    by (auto simp: run_def Let_def split: option.splits)
  show "collected_segments st = collected_segments ?loop" by (simp add: st)
  show "\<exists>bytes. files st = files ?loop @ [(OUT_TXT cfg, bytes)]
         \<and> file_content (files st) (OUT_TXT cfg) = Some bytes
         \<and> Some bytes = utf8_encode (translate_newlines (os_linesep cfg)
              (py_join [0x0A, 0x0A] (filter (\<lambda>segment. segment \<noteq> []) (collected_segments st))))
         \<and> (os_linesep cfg = [0x0A] \<longrightarrow> Some bytes = utf8_encode
              (py_join [0x0A, 0x0A] (filter (\<lambda>segment. segment \<noteq> []) (collected_segments st))))"
  proof (intro exI [of _ bytes] conjI impI)
    show "files st = files ?loop @ [(OUT_TXT cfg, bytes)]" by (simp add: st)
    show "file_content (files st) (OUT_TXT cfg) = Some bytes" by (simp add: st file_content_def)
    show "Some bytes = utf8_encode (translate_newlines (os_linesep cfg)
        (py_join [0x0A, 0x0A] (filter (\<lambda>segment. segment \<noteq> []) (collected_segments st))))"
      using b by (simp add: st output_text_def)
    show "Some bytes = utf8_encode
        (py_join [0x0A, 0x0A] (filter (\<lambda>segment. segment \<noteq> []) (collected_segments st)))"
      if "os_linesep cfg = [0x0A]"
      using b that by (simp add: st output_text_def translate_newlines_posix)
  qed
next
  assume "utf8_encode (translate_newlines (os_linesep cfg)
      (output_text (collected_segments (process_pages cfg U initial_state 0 pages)))) \<noteq> None"
  then show "\<exists>st'. run cfg U pages = Inr st'"
    by (auto simp: run_def Let_def)
next
  assume "output_text (collected_segments (process_pages cfg U initial_state 0 pages)) \<noteq> []"
  then show "hd (output_text (collected_segments (process_pages cfg U initial_state 0 pages))) \<noteq> 0x0A"
    and "last (output_text (collected_segments (process_pages cfg U initial_state 0 pages))) \<noteq> 0x0A"
    using output_text_ends by blast+
qed

text \<open>A run on two pages, the second with a formula in its text.\<close>

definition windows_config :: config where
  "windows_config = \<lparr> BASE = ustr ''doc'', OUT_TXT = ustr ''doc-cleaned.txt'',
     IMG_DIR = ustr ''doc_pageimgs'', os_path_join = (\<lambda>a b. a @ [0x5C] @ b),
     os_linesep = [0x0D, 0x0A] \<rparr>"

definition example_pages :: "page list" where
  "example_pages =
     [\<lparr> raw_text = ustr ''Intro text'', img_bytes = [1], ocr_text = [] \<rparr>,
      \<lparr> raw_text = ustr ''x_1 + x_2 = 10'', img_bytes = [2], ocr_text = [] \<rparr>]"

definition example_text :: ustring where
  "example_text = ustr ''Intro text'' @ [0x0A, 0x0A] @ ustr ''x_1 + x_2 = 10'' @ [0x0A, 0x0A]
     @ ustr ''<formula>''"

lemma example_segments:
  "collected_segments (process_pages cfg ascii_unicode initial_state 0 example_pages) =
     [ustr ''Intro text'', ustr ''x_1 + x_2 = 10'', ustr ''<formula>'']"
proof -
  have 1: "cleaned_page_text ascii_unicode (ustr ''Intro text'') = ustr ''Intro text''"
    by (simp add: page_eval)
  have 2: "cleaned_page_text ascii_unicode (ustr ''x_1 + x_2 = 10'') = ustr ''x_1 + x_2 = 10''"
    by (simp add: page_eval)
  have 3: "complex_formula_lines ascii_unicode (ustr ''Intro text'') = []"
    by (simp add: page_eval)
  have 4: "complex_formula_lines ascii_unicode (ustr ''x_1 + x_2 = 10'') \<noteq> []"
    by (simp add: page_eval)
  have 5: "ocr_trim [] = []" "\<not> is_math_like ascii_unicode []" "\<not> ocr_differs [] p" for p
    by (simp_all add: page_eval)
  have "collected_segments (process_pages cfg ascii_unicode initial_state 0 example_pages) =
      collected_segments initial_state @ concat (map (page_segments ascii_unicode) example_pages)"
    by (rule process_pages_segments)
  moreover have "concat (map (page_segments ascii_unicode) example_pages) =
      [ustr ''Intro text'', ustr ''x_1 + x_2 = 10'', ustr ''<formula>'']"
    by (simp add: page_segments_def page_flagged_def Let_def
        example_pages_def formula_marker_def ocr_has_math_def 1 2 3 4 5) (simp add: ustr_def)
  ultimately show ?thesis by (simp add: initial_state_def)
qed

lemma example_output: "output_text [ustr ''Intro text'', ustr ''x_1 + x_2 = 10'', ustr ''<formula>''] = example_text"
  by (simp add: output_text_def example_text_def ustr_def)

lemma utf8_ascii: "\<forall>c \<in> set s. c < 128 \<Longrightarrow> utf8_encode s = Some s"
  by (induction s) (simp_all add: utf8_char_def)

text \<open>The theorem on this run, with the newline as line separator.\<close>

theorem output_file_content_witness:
  "\<exists>st. run posix_config ascii_unicode example_pages = Inr st
      \<and> file_content (files st) (OUT_TXT posix_config) = utf8_encode example_text
      \<and> utf8_encode example_text = Some example_text
      \<and> last example_text \<noteq> 0x0A"
proof -
  let ?loop = "process_pages posix_config ascii_unicode initial_state 0 example_pages"
  have enc: "utf8_encode example_text = Some example_text"
    by (rule utf8_ascii) (simp add: example_text_def ustr_def)
  have ls: "os_linesep posix_config = [0x0A]" by (simp add: posix_config_def)
  have out: "output_text (collected_segments ?loop) = example_text"
    by (simp add: example_segments example_output)
  have ne: "example_text \<noteq> []" by (simp add: example_text_def)
  note main = output_file_content [of posix_config ascii_unicode example_pages]
  from main [of undefined] obtain st where r: "run posix_config ascii_unicode example_pages = Inr st"
    by (auto simp: out ls translate_newlines_posix enc)
  from main [of st] r ls have "file_content (files st) (OUT_TXT posix_config) =
      utf8_encode (output_text (collected_segments ?loop))"
    by (auto simp: output_text_def)
  then have f: "file_content (files st) (OUT_TXT posix_config) = utf8_encode example_text"
    by (simp add: out)
  from main [of st] ne have "last example_text \<noteq> 0x0A"
    by (simp add: out)
  with r f enc show ?thesis by blast
qed

text \<open>
  Claim C2 as stated fails where the line separator is carriage return and newline: the
  bytes of the file hold carriage returns, and without them they are the UTF-8 encoding
  of the joined segments.
\<close>

theorem output_file_content_counterexample:
  "\<exists>st bytes. run windows_config ascii_unicode example_pages = Inr st
      \<and> file_content (files st) (OUT_TXT windows_config) = Some bytes
      \<and> utf8_encode (output_text (collected_segments st)) = Some (filter (\<lambda>b. b \<noteq> 0x0D) bytes)
      \<and> 0x0D \<in> set bytes"
proof -
  let ?loop = "process_pages windows_config ascii_unicode initial_state 0 example_pages"
  let ?bytes = "translate_newlines [0x0D, 0x0A] example_text"
  have out: "output_text (collected_segments ?loop) = example_text"
    by (simp add: example_segments example_output)
  have enc: "utf8_encode example_text = Some example_text"
    by (rule utf8_ascii) (simp add: example_text_def ustr_def)
  have enc2: "utf8_encode ?bytes = Some ?bytes"
    by (rule utf8_ascii) (simp add: example_text_def ustr_def translate_newlines_def)
  have r: "run windows_config ascii_unicode example_pages =
      Inr (?loop\<lparr> files := files ?loop @ [(OUT_TXT windows_config, ?bytes)] \<rparr>)"
    by (simp add: run_def Let_def out enc2) (simp add: windows_config_def enc2)
  have f: "filter (\<lambda>b. b \<noteq> 0x0D) ?bytes = example_text"
    by (simp add: example_text_def ustr_def translate_newlines_def)
  have m: "0x0D \<in> set ?bytes"
    by (simp add: example_text_def ustr_def translate_newlines_def)
  show ?thesis
    by (intro exI [of _ "?loop\<lparr> files := files ?loop @ [(OUT_TXT windows_config, ?bytes)] \<rparr>"]
        exI [of _ ?bytes])
      (simp add: r file_content_def out enc f m)
qed

end
